theory Spec2Isabelle
  imports Complex_Main
begin


section \<open>Numbers and times\<close>

text \<open>
  The C++ types \<^verbatim>\<open>float\<close> and \<^verbatim>\<open>double\<close> are embedded as IEEE-754 values without
  rounding and without overflow: a finite value is a real number, and the three
  non-finite values are kept apart because the source divides by values it never
  checks. Zero is unsigned; a zero divisor counts as \<open>+0\<close>.
\<close>

datatype flt = Fin real | PInf | MInf | NaN

fun is_finite :: "flt \<Rightarrow> bool" where
  "is_finite (Fin a) = True"
| "is_finite PInf = False"
| "is_finite MInf = False"
| "is_finite NaN = False"

definition signed_inf :: "bool \<Rightarrow> flt" where
  "signed_inf negative = (if negative then MInf else PInf)"

fun fneg :: "flt \<Rightarrow> flt" where
  "fneg (Fin a) = Fin (- a)"
| "fneg PInf = MInf"
| "fneg MInf = PInf"
| "fneg NaN = NaN"

fun fadd :: "flt \<Rightarrow> flt \<Rightarrow> flt" where
  "fadd (Fin a) (Fin b) = Fin (a + b)"
| "fadd (Fin a) PInf = PInf"
| "fadd (Fin a) MInf = MInf"
| "fadd PInf (Fin b) = PInf"
| "fadd PInf PInf = PInf"
| "fadd PInf MInf = NaN"
| "fadd MInf (Fin b) = MInf"
| "fadd MInf PInf = NaN"
| "fadd MInf MInf = MInf"
| "fadd NaN y = NaN"
| "fadd x NaN = NaN"

definition fsub :: "flt \<Rightarrow> flt \<Rightarrow> flt" where
  "fsub x y = fadd x (fneg y)"

fun fmul :: "flt \<Rightarrow> flt \<Rightarrow> flt" where
  "fmul (Fin a) (Fin b) = Fin (a * b)"
| "fmul (Fin a) PInf = (if a = 0 then NaN else signed_inf (a < 0))"
| "fmul (Fin a) MInf = (if a = 0 then NaN else signed_inf (0 < a))"
| "fmul PInf (Fin b) = (if b = 0 then NaN else signed_inf (b < 0))"
| "fmul MInf (Fin b) = (if b = 0 then NaN else signed_inf (0 < b))"
| "fmul PInf PInf = PInf"
| "fmul PInf MInf = MInf"
| "fmul MInf PInf = MInf"
| "fmul MInf MInf = PInf"
| "fmul NaN y = NaN"
| "fmul x NaN = NaN"

fun fdiv :: "flt \<Rightarrow> flt \<Rightarrow> flt" where
  "fdiv (Fin a) (Fin b) =
     (if b = 0 then (if a = 0 then NaN else signed_inf (a < 0)) else Fin (a / b))"
| "fdiv (Fin a) PInf = Fin 0"
| "fdiv (Fin a) MInf = Fin 0"
| "fdiv PInf (Fin b) = signed_inf (b < 0)"
| "fdiv MInf (Fin b) = signed_inf (\<not> b < 0)"
| "fdiv PInf PInf = NaN"
| "fdiv PInf MInf = NaN"
| "fdiv MInf PInf = NaN"
| "fdiv MInf MInf = NaN"
| "fdiv NaN y = NaN"
| "fdiv x NaN = NaN"

text \<open>The comparison \<^verbatim>\<open>x < y\<close>: false as soon as one side is a NaN.\<close>

fun fless :: "flt \<Rightarrow> flt \<Rightarrow> bool" where
  "fless (Fin a) (Fin b) = (a < b)"
| "fless (Fin a) PInf = True"
| "fless (Fin a) MInf = False"
| "fless PInf y = False"
| "fless MInf (Fin b) = True"
| "fless MInf PInf = True"
| "fless MInf MInf = False"
| "fless x NaN = False"
| "fless NaN y = False"

fun fsin :: "flt \<Rightarrow> flt" where
  "fsin (Fin a) = Fin (sin a)"
| "fsin PInf = NaN"
| "fsin MInf = NaN"
| "fsin NaN = NaN"

fun fsqrt :: "flt \<Rightarrow> flt" where
  "fsqrt (Fin a) = (if a < 0 then NaN else Fin (sqrt a))"
| "fsqrt PInf = PInf"
| "fsqrt MInf = NaN"
| "fsqrt NaN = NaN"

definition M_PI :: flt where
  "M_PI = Fin pi"

text \<open>
  Modelled from the spec: the class \<^verbatim>\<open>aTime\<close> is declared in
  \<^verbatim>\<open>submodules/include/aTime.H\<close>, which is not among the sources. The spec calls
  its values simulated-time instants, and the program compares them, adds seconds to
  them and subtracts them: an instant is a real number of seconds, and
  \<^verbatim>\<open>get()\<close> reads that number.
\<close>

type_synonym aTime = real


section \<open>The spot filling stage (spotfilling.C)\<close>

text \<open>
  Modelled from the spec: the type \<^verbatim>\<open>GRID\<close> is declared in
  \<^verbatim>\<open>submodules/include/dgcpm.H\<close>, which is not among the sources. The spec describes
  a two-dimensional field indexed by the index of the longitude and then the index of
  the colatitude, and the source indexes \<^verbatim>\<open>g[iP][iT]\<close>: a grid is a list of rows, one
  row for each local time, one entry of a row for each colatitude.
\<close>

type_synonym GRID = "flt list list"

text \<open>
  The object \<^verbatim>\<open>SPOTFILLING\<close>: its own private members, and the two members of the
  base class \<^verbatim>\<open>FILLING\<close> that the stage reads (\<^verbatim>\<open>fMax\<close> and the saturation
  function object).
\<close>

record SPOTFILLING =
  fMax :: flt
  saturation :: "flt \<Rightarrow> flt"
  spot_t :: aTime
  spot_tStart :: aTime
  spot_tEnd :: aTime
  tCenter :: flt
  pCenter :: flt
  spot_R :: flt
  spot_f :: flt

text \<open>
  What \<^verbatim>\<open>filling\<close> receives by reference and may change in place: three vectors and
  five grids, all of them distinct objects.
\<close>

record fill_state =
  vR :: "flt list"
  vT :: "flt list"
  vP :: "flt list"
  mGridN :: GRID
  mGridDen :: GRID
  mGridVol :: GRID
  mGridOc :: GRID
  mGridBi :: GRID

definition setSpot ::
  "SPOTFILLING \<Rightarrow> aTime \<Rightarrow> aTime \<Rightarrow> flt \<Rightarrow> flt \<Rightarrow> flt \<Rightarrow> flt \<Rightarrow> SPOTFILLING" where
  "setSpot sp tStart' tEnd' t' p' r' f' =
     sp\<lparr>spot_tStart := tStart', spot_tEnd := tEnd', tCenter := t', pCenter := p',
        spot_R := r', spot_f := f'\<rparr>"

definition setTime :: "SPOTFILLING \<Rightarrow> aTime \<Rightarrow> SPOTFILLING" where
  "setTime sp time = sp\<lparr>spot_t := time\<rparr>"

definition RE :: flt where
  "RE = Fin 6400"

text \<open>Lines 81 to 85: the difference in local time, folded once from each side.\<close>

definition wrap_dP :: "flt \<Rightarrow> flt \<Rightarrow> flt" where
  "wrap_dP vPi pC =
     (let dP = fsub vPi pC;
          dP = (if fless (Fin 180) dP then fsub dP (Fin 360) else dP);
          dP = (if fless dP (Fin (- 180)) then fadd dP (Fin 360) else dP)
      in dP)"

text \<open>Lines 80 to 87: the distance \<^verbatim>\<open>r\<close> of the cell from the centre of the spot.\<close>

definition cell_r :: "SPOTFILLING \<Rightarrow> flt \<Rightarrow> flt \<Rightarrow> flt" where
  "cell_r sp vTi vPi =
     (let dT = fmul (fmul (fdiv (fsub vTi (tCenter sp)) (Fin 180)) M_PI) RE;
          dP = wrap_dP vPi (pCenter sp);
          dP = fmul (fmul (fmul (fdiv dP (Fin 180)) M_PI) RE)
                 (fsin (fmul (fdiv vTi (Fin 180)) M_PI))
      in fsqrt (fadd (fmul dT dT) (fmul dP dP)))"

definition grid_set :: "GRID \<Rightarrow> nat \<Rightarrow> nat \<Rightarrow> flt \<Rightarrow> GRID" where
  "grid_set g iP iT v = g[iP := (g ! iP)[iT := v]]"

text \<open>Lines 79 to 94: the body of the two loops, for one cell.\<close>

definition spot_cell ::
  "SPOTFILLING \<Rightarrow> flt \<Rightarrow> flt \<Rightarrow> flt \<Rightarrow> nat \<Rightarrow> nat \<Rightarrow> fill_state \<Rightarrow> fill_state" where
  "spot_cell sp sSat sFMax dt iT iP s =
     (let r = cell_r sp (vT s ! iT) (vP s ! iP)
      in if fless r (spot_R sp) then
           let flux = fmul (fdiv (fsub sSat (mGridDen s ! iP ! iT)) sSat) sFMax;
               s = s\<lparr>mGridN := grid_set (mGridN s) iP iT
                      (fadd (mGridN s ! iP ! iT) (fdiv (fmul flux dt) (mGridBi s ! iP ! iT)))\<rparr>;
               s = s\<lparr>mGridDen := grid_set (mGridDen s) iP iT
                      (fdiv (mGridN s ! iP ! iT) (mGridVol s ! iP ! iT))\<rparr>
           in s
         else s)"

text \<open>Line 67: the saturation at the centre of the spot.\<close>

definition spot_dSat :: "SPOTFILLING \<Rightarrow> flt" where
  "spot_dSat sp =
     saturation sp
       (fdiv (fdiv (Fin 1) (fsin (fmul (fdiv (tCenter sp) (Fin 180)) M_PI)))
          (fsin (fmul (fdiv (tCenter sp) (Fin 180)) M_PI)))"

text \<open>
  Lines 65 to 95: what runs inside the time interval of the spot. The two counters run
  over the indices of \<^verbatim>\<open>vT\<close> and of \<^verbatim>\<open>vP\<close>, whose sizes are read once, before the
  loops; the line printed to the terminal is left out.
\<close>

definition spot_overlay :: "SPOTFILLING \<Rightarrow> flt \<Rightarrow> fill_state \<Rightarrow> fill_state" where
  "spot_overlay sp dt s =
     (let dSat = spot_dSat sp;
          sSat = fmul (spot_f sp) dSat;
          sFMax = fmul (spot_f sp) (fMax sp);
          nT = length (vT s);
          nP = length (vP s)
      in fold (\<lambda>iT. fold (\<lambda>iP. spot_cell sp sSat sFMax dt iT iP) [0..<nP]) [0..<nT] s)"

text \<open>
  \<^verbatim>\<open>SPOTFILLING::filling\<close>. The default filling \<^verbatim>\<open>FILLING::filling\<close> belongs to the
  model library, which is not among the sources: it is the parameter \<open>FILLING_filling\<close>,
  any function of what it receives.
\<close>

definition filling ::
  "SPOTFILLING \<Rightarrow> (fill_state \<Rightarrow> flt \<Rightarrow> fill_state) \<Rightarrow> fill_state \<Rightarrow> flt \<Rightarrow> fill_state" where
  "filling sp FILLING_filling s dt =
     (let s = FILLING_filling s dt
      in if spot_tStart sp \<le> spot_t sp \<and> spot_t sp \<le> spot_tEnd sp
         then spot_overlay sp dt s
         else s)"

text \<open>
  The grids have a row for each entry of \<^verbatim>\<open>vP\<close> and, in each row, an entry for each
  entry of \<^verbatim>\<open>vT\<close>: what the loops of the source take for granted when they index.
\<close>

definition grid_shape :: "nat \<Rightarrow> nat \<Rightarrow> GRID \<Rightarrow> bool" where
  "grid_shape nP nT g = (length g = nP \<and> list_all (\<lambda>row. length row = nT) g)"

definition shaped :: "fill_state \<Rightarrow> bool" where
  "shaped s =
     (grid_shape (length (vP s)) (length (vT s)) (mGridN s) \<and>
      grid_shape (length (vP s)) (length (vT s)) (mGridDen s) \<and>
      grid_shape (length (vP s)) (length (vT s)) (mGridVol s) \<and>
      grid_shape (length (vP s)) (length (vT s)) (mGridBi s))"

text \<open>
  Names for what the source computes for one cell: whether the cell passes the test
  \<^verbatim>\<open>r<R\<close> of line 90, and the value that line 92 leaves in \<^verbatim>\<open>mGridN\<close>.
\<close>

definition inside_spot :: "SPOTFILLING \<Rightarrow> fill_state \<Rightarrow> nat \<Rightarrow> nat \<Rightarrow> bool" where
  "inside_spot sp s iP iT = fless (cell_r sp (vT s ! iT) (vP s ! iP)) (spot_R sp)"

definition cell_N :: "flt \<Rightarrow> flt \<Rightarrow> flt \<Rightarrow> fill_state \<Rightarrow> nat \<Rightarrow> nat \<Rightarrow> flt" where
  "cell_N sSat sFMax dt s iP iT =
     fadd (mGridN s ! iP ! iT)
       (fdiv (fmul (fmul (fdiv (fsub sSat (mGridDen s ! iP ! iT)) sSat) sFMax) dt)
          (mGridBi s ! iP ! iT))"

text \<open>What the loops never assign.\<close>

definition same_frame :: "fill_state \<Rightarrow> fill_state \<Rightarrow> bool" where
  "same_frame s s' =
     (vR s' = vR s \<and> vT s' = vT s \<and> vP s' = vP s \<and> mGridVol s' = mGridVol s \<and>
      mGridOc s' = mGridOc s \<and> mGridBi s' = mGridBi s)"

text \<open>The loop body run over a list of cells, each given as \<open>(iT, iP)\<close>.\<close>

definition cell_list ::
  "SPOTFILLING \<Rightarrow> flt \<Rightarrow> flt \<Rightarrow> flt \<Rightarrow> (nat \<times> nat) list \<Rightarrow> fill_state \<Rightarrow> fill_state" where
  "cell_list sp sSat sFMax dt cs s = fold (\<lambda>(iT, iP). spot_cell sp sSat sFMax dt iT iP) cs s"


section \<open>The time loop (runDGCPM.C)\<close>

text \<open>
  The calls that leave the program for the model library, the output file and the
  sample writer, in the order they are made. What the program prints to the terminal
  is left out.
\<close>

datatype event =
    SetEPot flt
  | SetFilling
  | WriteHeader
  | SetTime aTime
  | Advance real
  | WriteState aTime
  | WriteSample aTime

text \<open>
  What the source does not guard against: a call through the pointer \<^verbatim>\<open>f\<close> that was
  never assigned, a call through the null pointer \<^verbatim>\<open>samples\<close>, a write to the file
  \<^verbatim>\<open>oFp\<close> that was never opened, a Kp record outside the loaded ones; and the
  \<^verbatim>\<open>exit\<close> of \<^verbatim>\<open>parseArgs\<close>.
\<close>

datatype error = UninitialisedPointer | NullPointer | UninitialisedFile | IndexOutOfRange | Exit int

definition bind_res :: "error + 'a \<Rightarrow> ('a \<Rightarrow> error + 'b) \<Rightarrow> error + 'b" where
  "bind_res r k = (case r of Inl e \<Rightarrow> Inl e | Inr x \<Rightarrow> k x)"

text \<open>
  Modelled from the spec: the class \<^verbatim>\<open>SAMPLE\<close> is declared in
  \<^verbatim>\<open>submodules/include/sample.H\<close>, which is not among the sources. The spec describes
  the sample output as periodic, driven by a sample cursor, with a fixed period added
  at each write: the cursor starts at the time it is constructed with, and
  \<^verbatim>\<open>++\<close> adds the period it is constructed with.
\<close>

record SAMPLE =
  smp_time :: aTime
  smp_period :: real

definition SAMPLE_incr :: "SAMPLE \<Rightarrow> SAMPLE" where
  "SAMPLE_incr sm = sm\<lparr>smp_time := smp_time sm + smp_period sm\<rparr>"

text \<open>
  The global variables as \<^verbatim>\<open>parseArgs\<close> leaves them, and what the program takes from
  the libraries that are not among the sources: the Kp records that \<^verbatim>\<open>KPS\<close> loads
  (time and Kp value), the result of \<^verbatim>\<open>kp.find\<close>, the saturation function a
  \<^verbatim>\<open>FILLING\<close> starts with, the one \<^verbatim>\<open>SATURATION(A,B)\<close> builds, and the members
  of a \<^verbatim>\<open>SPOTFILLING\<close> as allocated, before any of them is assigned.
\<close>

record config =
  g_iFiles :: "string list"
  g_samplesIFile :: string
  g_dt :: real
  g_T :: real
  g_tStart :: aTime
  g_tStop :: aTime
  g_tOut :: aTime
  g_filling :: int
  g_fMax :: flt
  g_tauClosed :: flt
  g_tauOpen :: flt
  g_saturation :: int
  g_saturationA :: flt
  g_saturationB :: flt
  g_sStartDt :: real
  g_sStopDt :: real
  g_sT :: flt
  g_sP :: flt
  g_sR :: flt
  g_sF :: flt
  kps :: "(aTime \<times> flt) list"
  kps_find :: "aTime \<Rightarrow> int"
  FILLING_saturation :: "flt \<Rightarrow> flt"
  SATURATION :: "flt \<Rightarrow> flt \<Rightarrow> flt \<Rightarrow> flt"
  allocated :: SPOTFILLING

text \<open>The local variables of \<^verbatim>\<open>main\<close> that the loop reads and writes, and the calls made so far.\<close>

record loop =
  l_tStop :: aTime
  l_t :: aTime
  l_tNext :: aTime
  l_tFilling :: aTime
  l_tKp :: aTime
  l_iKp :: int
  l_tWriteState :: aTime
  l_tWriteSample :: aTime
  l_samples :: "SAMPLE option"
  l_f :: "SPOTFILLING option"
  l_trace :: "event list"

definition kp_at :: "config \<Rightarrow> int \<Rightarrow> error + (aTime \<times> flt)" where
  "kp_at c i =
     (if 0 \<le> i \<and> i < int (length (kps c)) then Inr (kps c ! nat i) else Inl IndexOutOfRange)"

definition emit :: "event \<Rightarrow> loop \<Rightarrow> loop" where
  "emit e s = s\<lparr>l_trace := l_trace s @ [e]\<rparr>"

text \<open>Lines 424 to 433: the two checks at the end of \<^verbatim>\<open>parseArgs\<close>.\<close>

definition parseArgs_checks :: "config \<Rightarrow> error + unit" where
  "parseArgs_checks c =
     (if length (g_iFiles c) = 0 then Inl (Exit 1)
      else if g_saturation c = 1 \<and> g_filling c = 0 then Inl (Exit 1)
      else Inr ())"

text \<open>
  Modelled from the spec: the constructor of lines 7 to 9 hands its arguments to the
  constructor of \<^verbatim>\<open>FILLING\<close>, which is not among the sources. The spec has the peak
  source rate \<^verbatim>\<open>fMax\<close> owned by the default filling and read by the spot stage, and
  a saturation function that is there by default: the new object holds \<^verbatim>\<open>fmax\<close> as
  its \<^verbatim>\<open>fMax\<close> and the default saturation function; its own members are as
  allocated.
\<close>

definition SPOTFILLING_new :: "config \<Rightarrow> flt \<Rightarrow> flt \<Rightarrow> flt \<Rightarrow> SPOTFILLING" where
  "SPOTFILLING_new c fmax tauclosed tauopen =
     (allocated c)\<lparr>fMax := fmax, saturation := FILLING_saturation c\<rparr>"

text \<open>Lines 102 to 114: the start time, the end time and the start of the output.\<close>

definition run_times :: "config \<Rightarrow> error + (aTime \<times> aTime \<times> aTime)" where
  "run_times c =
     bind_res (if g_tStart c < 1 then bind_res (kp_at c 0) (\<lambda>r. Inr (fst r))
               else Inr (g_tStart c)) (\<lambda>tStart.
     bind_res (if g_tStop c < tStart then
                 (if g_T c < 0
                  then bind_res (kp_at c (int (length (kps c)) - 1)) (\<lambda>r. Inr (fst r))
                  else Inr (tStart + g_T c))
               else Inr (g_tStop c)) (\<lambda>tStop.
     Inr (tStart, tStop, if g_tOut c < 1 then tStart else g_tOut c)))"

text \<open>Lines 127 to 147: the filling object and its saturation function.\<close>

definition make_filling :: "config \<Rightarrow> aTime \<Rightarrow> error + SPOTFILLING option" where
  "make_filling c tStart =
     (let f = (if g_filling c = 1
               then Some (setSpot (SPOTFILLING_new c (g_fMax c) (g_tauClosed c) (g_tauOpen c))
                      (tStart + g_sStartDt c) (tStart + g_sStopDt c)
                      (g_sT c) (g_sP c) (g_sR c) (g_sF c))
               else None)
      in if g_saturation c = 1 then
           (case f of
              None \<Rightarrow> Inl UninitialisedPointer
            | Some sp \<Rightarrow>
                Inr (Some (sp\<lparr>saturation := SATURATION c (g_saturationA c) (g_saturationB c)\<rparr>)))
         else Inr f)"

text \<open>Lines 149 to 174: the two output streams and the variables of the loop.\<close>

definition loop_start ::
  "config \<Rightarrow> aTime \<Rightarrow> aTime \<Rightarrow> aTime \<Rightarrow> aTime \<times> flt \<Rightarrow> int \<Rightarrow> SPOTFILLING option \<Rightarrow> loop" where
  "loop_start c tStart tStop tOut r iKp f =
     (let samples = (if length (g_samplesIFile c) > 0
                     then Some \<lparr>smp_time = tOut, smp_period = g_dt c\<rparr> else None);
          tWriteSample = (case samples of None \<Rightarrow> tStop + 1 | Some sm \<Rightarrow> smp_time sm);
          tWriteState = (if samples = None then tOut else tStop + 1)
      in \<lparr>l_tStop = tStop, l_t = tStart, l_tNext = tStart, l_tFilling = tStart,
           l_tKp = fst r, l_iKp = iKp, l_tWriteState = tWriteState,
           l_tWriteSample = tWriteSample, l_samples = samples, l_f = f,
           l_trace = [SetEPot (snd r)] @ (if g_filling c = 1 then [SetFilling] else [])
             @ (if samples = None then [WriteHeader] else [])\<rparr>)"

text \<open>Lines 97 to 174: \<^verbatim>\<open>main\<close> up to the loop.\<close>

definition main_setup :: "config \<Rightarrow> error + loop" where
  "main_setup c =
     bind_res (parseArgs_checks c) (\<lambda>_.
     bind_res (run_times c) (\<lambda>(tStart, tStop, tOut).
     bind_res (kp_at c (kps_find c tStart)) (\<lambda>r.
     bind_res (make_filling c tStart) (\<lambda>f.
     Inr (loop_start c tStart tStop tOut r (kps_find c tStart) f)))))"

text \<open>Lines 176 to 184: the time of the filling object, its timer, and the advance.\<close>

definition advance_phase :: "loop \<Rightarrow> error + loop" where
  "advance_phase s =
     (case l_f s of
        None \<Rightarrow> Inl UninitialisedPointer
      | Some sp \<Rightarrow>
          let s = emit (SetTime (l_t s)) (s\<lparr>l_f := Some (setTime sp (l_t s))\<rparr>);
              s = s\<lparr>l_tFilling := l_tFilling s + 300\<rparr>
          in if l_tNext s - l_t s > 0
             then Inr ((emit (Advance (l_tNext s - l_t s)) s)\<lparr>l_t := l_tNext s\<rparr>)
             else Inr s)"

text \<open>Lines 188 to 199: the Kp stream.\<close>

definition service_kp :: "config \<Rightarrow> loop \<Rightarrow> error + loop" where
  "service_kp c s =
     (if l_t s \<ge> l_tKp s then
        bind_res (kp_at c (l_iKp s)) (\<lambda>r.
        let s = (emit (SetEPot (snd r)) s)\<lparr>l_iKp := l_iKp s + 1\<rparr>
        in if l_iKp s \<ge> int (length (kps c)) then Inr (s\<lparr>l_tKp := l_tStop s + 1\<rparr>)
           else bind_res (kp_at c (l_iKp s)) (\<lambda>r'. Inr (s\<lparr>l_tKp := fst r'\<rparr>)))
      else Inr s)"

text \<open>Lines 201 to 205: the state stream. The file is open only when there are no samples.\<close>

definition service_state :: "config \<Rightarrow> loop \<Rightarrow> error + loop" where
  "service_state c s =
     (if l_t s \<ge> l_tWriteState s then
        (if l_samples s = None
         then Inr ((emit (WriteState (l_t s)) s)\<lparr>l_tWriteState := l_tWriteState s + g_dt c\<rparr>)
         else Inl UninitialisedFile)
      else Inr s)"

text \<open>Lines 207 to 210 and 472 to 476: the sample stream.\<close>

definition service_sample :: "loop \<Rightarrow> error + loop" where
  "service_sample s =
     (if l_t s \<ge> l_tWriteSample s then
        (case l_samples s of
           None \<Rightarrow> Inl NullPointer
         | Some sm \<Rightarrow>
             Inr ((emit (WriteSample (l_t s)) s)
                    \<lparr>l_samples := Some (SAMPLE_incr sm),
                     l_tWriteSample := smp_time (SAMPLE_incr sm)\<rparr>))
      else Inr s)"

text \<open>Lines 212 to 218: the next time to stop at.\<close>

definition next_time :: "loop \<Rightarrow> loop" where
  "next_time s =
     (let tNext = l_tWriteSample s;
          tNext = (if l_tWriteState s < tNext then l_tWriteState s else tNext);
          tNext = (if l_tKp s < tNext then l_tKp s else tNext);
          tNext = (if l_tFilling s < tNext then l_tFilling s else tNext)
      in s\<lparr>l_tNext := tNext\<rparr>)"

text \<open>Lines 176 to 218: one pass through the body of the loop.\<close>

definition loop_body :: "config \<Rightarrow> loop \<Rightarrow> error + loop" where
  "loop_body c s =
     bind_res (advance_phase s) (\<lambda>s.
     bind_res (service_kp c s) (\<lambda>s.
     bind_res (service_state c s) (\<lambda>s.
     bind_res (service_sample s) (\<lambda>s.
     Inr (next_time s)))))"

text \<open>
  Lines 175 to 219: the loop, with a bound on the number of passes, since nothing in the
  source bounds it: \<open>None\<close> when the bound is reached.
\<close>

fun main_loop :: "nat \<Rightarrow> config \<Rightarrow> loop \<Rightarrow> (error + loop) option" where
  "main_loop 0 c s = None"
| "main_loop (Suc n) c s =
     (if l_tNext s \<le> l_tStop s then
        (case loop_body c s of
           Inl e \<Rightarrow> Some (Inl e)
         | Inr s' \<Rightarrow> main_loop n c s')
      else Some (Inr s))"

definition main :: "nat \<Rightarrow> config \<Rightarrow> (error + loop) option" where
  "main n c =
     (case main_setup c of
        Inl e \<Rightarrow> Some (Inl e)
      | Inr s \<Rightarrow> main_loop n c s)"

text \<open>The states in which the condition of the loop is evaluated.\<close>

inductive loop_head :: "config \<Rightarrow> loop \<Rightarrow> bool" for c :: config where
  start: "main_setup c = Inr s \<Longrightarrow> loop_head c s"
| pass: "loop_head c s \<Longrightarrow> l_tNext s \<le> l_tStop s \<Longrightarrow> loop_body c s = Inr s' \<Longrightarrow> loop_head c s'"

text \<open>The calls a pass adds, and the steps among them.\<close>

definition new_events :: "loop \<Rightarrow> loop \<Rightarrow> event list" where
  "new_events s s' = drop (length (l_trace s)) (l_trace s')"

fun advances :: "event list \<Rightarrow> real list" where
  "advances [] = []"
| "advances (Advance d # es) = d # advances es"
| "advances (e # es) = advances es"

text \<open>The time at which a pass from \<open>s\<close> evaluates the conditions of the three streams.\<close>

definition service_time :: "loop \<Rightarrow> aTime" where
  "service_time s = (if l_tNext s - l_t s > 0 then l_tNext s else l_t s)"

text \<open>
  A pass from \<open>s\<close> serves a stream whose time is strictly before the current time:
  each of the three conditions is \<^verbatim>\<open>t>=\<close> the time of the stream.
\<close>

definition serves_late :: "loop \<Rightarrow> bool" where
  "serves_late s =
     (l_tKp s < service_time s \<or> l_tWriteState s < service_time s \<or>
      l_tWriteSample s < service_time s)"

text \<open>
  What holds each time the condition of the loop is evaluated in a run that starts with
  no stream due before the start time: the current time has not passed the next time to
  stop at, which has not passed the time of any stream; the filling object exists; the
  stream that is switched off waits at the end of the run plus one second; the time of
  the sample stream is the time of the sample cursor; and the time of the Kp stream is
  the time of the record at \<^verbatim>\<open>iKp\<close>, or the end of the run plus one second when the
  records are used up.
\<close>

definition on_time :: "config \<Rightarrow> loop \<Rightarrow> bool" where
  "on_time c s =
     (l_t s \<le> l_tNext s \<and> l_tNext s \<le> l_tKp s \<and> l_tNext s \<le> l_tWriteState s \<and>
      l_tNext s \<le> l_tWriteSample s \<and> l_tNext s \<le> l_tFilling s \<and> l_f s \<noteq> None \<and>
      (case l_samples s of
         None \<Rightarrow> l_tWriteSample s = l_tStop s + 1
       | Some sm \<Rightarrow> l_tWriteState s = l_tStop s + 1 \<and> l_tWriteSample s = smp_time sm \<and>
           0 \<le> smp_period sm) \<and>
      0 \<le> l_iKp s \<and>
      (if l_iKp s < int (length (kps c)) then l_tKp s = fst (kps c ! nat (l_iKp s))
       else l_tKp s = l_tStop s + 1))"


section \<open>Examples to run the program on\<close>

text \<open>
  One colatitude and three local times; the spot sits on the first cell, the second
  cell is twenty degrees away across the wrap of the local time, the third is half a
  turn away. The default filling of the example adds the time step to every \<^verbatim>\<open>N\<close>
  and recomputes the density.
\<close>

definition ex_spot :: SPOTFILLING where
  "ex_spot = \<lparr>fMax = Fin 2, saturation = (\<lambda>l. fmul (Fin 5) l), spot_t = 50,
     spot_tStart = 0, spot_tEnd = 100, tCenter = Fin 90, pCenter = Fin 350,
     spot_R = Fin 3000, spot_f = Fin 10\<rparr>"

definition ex_grids :: fill_state where
  "ex_grids = \<lparr>vR = [Fin 2], vT = [Fin 90], vP = [Fin 350, Fin 10, Fin 170],
     mGridN = [[Fin 1], [Fin 1], [Fin 1]],
     mGridDen = [[Fin 10], [Fin 10], [Fin 10]],
     mGridVol = [[Fin (1 / 10)], [Fin (1 / 10)], [Fin (1 / 10)]],
     mGridOc = [[Fin 1], [Fin 1], [Fin 1]],
     mGridBi = [[Fin 4], [Fin 4], [Fin 4]]\<rparr>"

definition ex_FILLING :: "fill_state \<Rightarrow> flt \<Rightarrow> fill_state" where
  "ex_FILLING s dt =
     (let n = map (map (\<lambda>x. fadd x dt)) (mGridN s)
      in s\<lparr>mGridN := n, mGridDen := map2 (map2 fdiv) n (mGridVol s)\<rparr>)"

text \<open>The spot of the example with a saturation function that returns zero.\<close>

definition ex_spot_zero :: SPOTFILLING where
  "ex_spot_zero = ex_spot\<lparr>saturation := (\<lambda>l. Fin 0)\<rparr>"

text \<open>
  A run on three Kp records, three hours apart, with the default period of the output
  and no samples; the start, the end and the start of the output are left to their
  defaults, so the run starts at the first record, at 1000, and ends at the last.
  \<open>ex_start\<close> is the state in which it reaches the loop, \<open>ex_start'\<close> the state
  after the first pass.
\<close>

definition ex_config :: config where
  "ex_config = \<lparr>g_iFiles = [''kp.wdc''], g_samplesIFile = [], g_dt = 900, g_T = - 1,
     g_tStart = 0, g_tStop = 0, g_tOut = 0, g_filling = 1, g_fMax = Fin 2,
     g_tauClosed = Fin 864000, g_tauOpen = Fin 86400, g_saturation = 0,
     g_saturationA = Fin 0, g_saturationB = Fin 0, g_sStartDt = 600, g_sStopDt = 1200,
     g_sT = Fin 90, g_sP = Fin 350, g_sR = Fin 3000, g_sF = Fin 10,
     kps = [(1000, Fin 2), (11800, Fin 3), (22600, Fin 1)],
     kps_find = (\<lambda>t. if t < 11800 then 0 else if t < 22600 then 1 else 2),
     FILLING_saturation = (\<lambda>l. fmul (Fin 5) l),
     SATURATION = (\<lambda>A B l. fadd A (fmul B l)),
     allocated = ex_spot\<rparr>"

definition ex_start :: loop where
  "ex_start = \<lparr>l_tStop = 22600, l_t = 1000, l_tNext = 1000, l_tFilling = 1000, l_tKp = 1000,
     l_iKp = 0, l_tWriteState = 1000, l_tWriteSample = 22601, l_samples = None,
     l_f = Some (ex_spot\<lparr>spot_tStart := 1600, spot_tEnd := 2200\<rparr>),
     l_trace = [SetEPot (Fin 2), SetFilling, WriteHeader]\<rparr>"

definition ex_start' :: loop where
  "ex_start' = \<lparr>l_tStop = 22600, l_t = 1000, l_tNext = 1300, l_tFilling = 1300, l_tKp = 11800,
     l_iKp = 1, l_tWriteState = 1900, l_tWriteSample = 22601, l_samples = None,
     l_f = Some (ex_spot\<lparr>spot_tStart := 1600, spot_tEnd := 2200, spot_t := 1000\<rparr>),
     l_trace = [SetEPot (Fin 2), SetFilling, WriteHeader, SetTime 1000, SetEPot (Fin 2),
       WriteState 1000]\<rparr>"

text \<open>
  A run with samples every 120 seconds, on two Kp records at 0 and at 300, ending at
  899. \<open>ex_sample_start\<close> is the state in which it reaches the loop; \<open>ex_tick\<close>, the
  state after its first pass, has the times of the spec's example: samples at 120, spot
  timer at 300, state at 900, Kp at 300.
\<close>

definition ex_sample_config :: config where
  "ex_sample_config = ex_config\<lparr>g_samplesIFile := ''samples.dat'', g_dt := 120,
     g_tStop := 899, kps := [(0, Fin 2), (300, Fin 3)],
     kps_find := (\<lambda>t. if t < 300 then 0 else 1)\<rparr>"

definition ex_sample_start :: loop where
  "ex_sample_start = \<lparr>l_tStop = 899, l_t = 0, l_tNext = 0, l_tFilling = 0, l_tKp = 0,
     l_iKp = 0, l_tWriteState = 900, l_tWriteSample = 0,
     l_samples = Some \<lparr>smp_time = 0, smp_period = 120\<rparr>,
     l_f = Some (ex_spot\<lparr>spot_tStart := 600, spot_tEnd := 1200\<rparr>),
     l_trace = [SetEPot (Fin 2), SetFilling]\<rparr>"

definition ex_tick :: loop where
  "ex_tick = \<lparr>l_tStop = 899, l_t = 0, l_tNext = 120, l_tFilling = 300, l_tKp = 300,
     l_iKp = 1, l_tWriteState = 900, l_tWriteSample = 120,
     l_samples = Some \<lparr>smp_time = 120, smp_period = 120\<rparr>,
     l_f = Some (ex_spot\<lparr>spot_tStart := 600, spot_tEnd := 1200, spot_t := 0\<rparr>),
     l_trace = [SetEPot (Fin 2), SetFilling, SetTime 0, SetEPot (Fin 2), WriteSample 0]\<rparr>"

text \<open>The states after one pass and after two passes from there.\<close>

definition ex_tick' :: loop where
  "ex_tick' = \<lparr>l_tStop = 899, l_t = 120, l_tNext = 240, l_tFilling = 600, l_tKp = 300,
     l_iKp = 1, l_tWriteState = 900, l_tWriteSample = 240,
     l_samples = Some \<lparr>smp_time = 240, smp_period = 120\<rparr>,
     l_f = Some (ex_spot\<lparr>spot_tStart := 600, spot_tEnd := 1200, spot_t := 0\<rparr>),
     l_trace = [SetEPot (Fin 2), SetFilling, SetTime 0, SetEPot (Fin 2), WriteSample 0,
       SetTime 0, Advance 120, WriteSample 120]\<rparr>"

definition ex_tick'' :: loop where
  "ex_tick'' = \<lparr>l_tStop = 899, l_t = 240, l_tNext = 300, l_tFilling = 900, l_tKp = 300,
     l_iKp = 1, l_tWriteState = 900, l_tWriteSample = 360,
     l_samples = Some \<lparr>smp_time = 360, smp_period = 120\<rparr>,
     l_f = Some (ex_spot\<lparr>spot_tStart := 600, spot_tEnd := 1200, spot_t := 120\<rparr>),
     l_trace = [SetEPot (Fin 2), SetFilling, SetTime 0, SetEPot (Fin 2), WriteSample 0,
       SetTime 0, Advance 120, WriteSample 120, SetTime 120, Advance 120,
       WriteSample 240]\<rparr>"

text \<open>The first run without the option \<^verbatim>\<open>-filling\<close>.\<close>

definition plain_config :: config where
  "plain_config = ex_config\<lparr>g_filling := 0\<rparr>"

definition plain_start :: loop where
  "plain_start = ex_start\<lparr>l_f := None, l_trace := [SetEPot (Fin 2), WriteHeader]\<rparr>"

text \<open>The first run with the output requested from 500, before the start of the run.\<close>

definition early_config :: config where
  "early_config = ex_config\<lparr>g_tOut := 500\<rparr>"

definition early_start :: loop where
  "early_start = ex_start\<lparr>l_tWriteState := 500\<rparr>"

definition early_next :: loop where
  "early_next = ex_start'\<lparr>l_tWriteState := 1400\<rparr>"

text \<open>
  The first run with the output requested from 400, before the start of the run, every
  100 seconds.
\<close>

definition catchup_config :: config where
  "catchup_config = ex_config\<lparr>g_tOut := 400, g_dt := 100\<rparr>"

definition catchup_start :: loop where
  "catchup_start = ex_start\<lparr>l_tWriteState := 400\<rparr>"

definition catchup_next :: loop where
  "catchup_next = ex_start'\<lparr>l_tWriteState := 500, l_tNext := 500\<rparr>"


section \<open>Arithmetic of the embedded numbers\<close>

lemma fdiv_twice: "fdiv (fdiv (Fin 1) x) x = fdiv (Fin 1) (fmul x x)"
  by (cases x) (simp_all add: signed_inf_def)

lemma fless_irrefl: "\<not> fless x x"
  by (cases x) simp_all

lemma fdiv_zero_nonfinite: "\<not> is_finite (fdiv x (Fin 0))"
  by (cases x) (simp_all add: signed_inf_def)

lemma fmul_nonfinite: "\<not> is_finite x \<Longrightarrow> \<not> is_finite (fmul x y)"
  by (cases x; cases y) (simp_all add: signed_inf_def)

lemma fdiv_nonfinite: "\<not> is_finite x \<Longrightarrow> \<not> is_finite (fdiv x y)"
  by (cases x; cases y) (simp_all add: signed_inf_def)

lemma fadd_nonfinite: "\<not> is_finite y \<Longrightarrow> \<not> is_finite (fadd x y)"
  by (cases x; cases y) simp_all

lemma wrap_dP_Fin:
  "wrap_dP (Fin a) (Fin b) =
     Fin (if 180 < a - b then (if a - b - 360 < - 180 then a - b else a - b - 360)
          else if a - b < - 180 then a - b + 360 else a - b)"
  by (simp add: wrap_dP_def fsub_def Let_def)


section \<open>The loops of the spot, cell by cell\<close>

lemma grid_set_nth:
  "iP < length g \<Longrightarrow> iT < length (g ! iP) \<Longrightarrow>
   grid_set g iP iT v ! p ! q = (if p = iP \<and> q = iT then v else g ! p ! q)"
  by (auto simp: grid_set_def nth_list_update)

lemma grid_set_shape:
  "grid_shape nP nT g \<Longrightarrow> grid_shape nP nT (grid_set g iP iT v)"
  by (auto simp: grid_shape_def grid_set_def list_all_length nth_list_update)
    (metis length_list_update nth_list_update_eq nth_list_update_neq)

lemma grid_shape_row:
  "grid_shape nP nT g \<Longrightarrow> p < nP \<Longrightarrow> length (g ! p) = nT"
  by (auto simp: grid_shape_def list_all_length)

lemma grid_shape_len: "grid_shape nP nT g \<Longrightarrow> length g = nP"
  by (simp add: grid_shape_def)

lemma spot_cell_frame: "same_frame s (spot_cell sp sSat sFMax dt iT iP s)"
  by (simp add: spot_cell_def same_frame_def Let_def)

lemma spot_cell_shaped: "shaped s \<Longrightarrow> shaped (spot_cell sp sSat sFMax dt iT iP s)"
  by (simp add: spot_cell_def shaped_def Let_def grid_set_shape)

lemma spot_cell_N:
  assumes "shaped s" "iP < length (vP s)" "iT < length (vT s)"
  shows "mGridN (spot_cell sp sSat sFMax dt iT iP s) ! p ! q =
     (if p = iP \<and> q = iT \<and> inside_spot sp s iP iT then cell_N sSat sFMax dt s iP iT
      else mGridN s ! p ! q)"
  using assms
  by (auto simp: spot_cell_def Let_def inside_spot_def cell_N_def shaped_def grid_set_nth
      grid_shape_row grid_shape_len)

lemma spot_cell_Den:
  assumes "shaped s" "iP < length (vP s)" "iT < length (vT s)"
  shows "mGridDen (spot_cell sp sSat sFMax dt iT iP s) ! p ! q =
     (if p = iP \<and> q = iT \<and> inside_spot sp s iP iT
      then fdiv (cell_N sSat sFMax dt s iP iT) (mGridVol s ! iP ! iT)
      else mGridDen s ! p ! q)"
  using assms
  by (auto simp: spot_cell_def Let_def inside_spot_def cell_N_def shaped_def grid_set_nth
      grid_shape_row grid_shape_len)

lemma same_frame_inside: "same_frame s s' \<Longrightarrow> inside_spot sp s' p q = inside_spot sp s p q"
  by (simp add: same_frame_def inside_spot_def)

lemma same_frame_trans: "same_frame s s' \<Longrightarrow> same_frame s' s'' \<Longrightarrow> same_frame s s''"
  by (simp add: same_frame_def)

lemma cell_list_frame: "same_frame s (cell_list sp sSat sFMax dt cs s)"
proof (induction cs arbitrary: s)
  case Nil
  show ?case by (simp add: cell_list_def same_frame_def)
next
  case (Cons c cs)
  obtain iT iP where c: "c = (iT, iP)" by (cases c)
  have "same_frame (spot_cell sp sSat sFMax dt iT iP s)
          (cell_list sp sSat sFMax dt cs (spot_cell sp sSat sFMax dt iT iP s))"
    by (rule Cons.IH)
  with spot_cell_frame [of s sp sSat sFMax dt iT iP] show ?case
    unfolding c by (auto simp: cell_list_def intro: same_frame_trans)
qed

lemma cell_list_shaped: "shaped s \<Longrightarrow> shaped (cell_list sp sSat sFMax dt cs s)"
proof (induction cs arbitrary: s)
  case Nil
  then show ?case by (simp add: cell_list_def)
next
  case (Cons c cs)
  obtain iT iP where c: "c = (iT, iP)" by (cases c)
  from Cons.prems have "shaped (spot_cell sp sSat sFMax dt iT iP s)"
    by (rule spot_cell_shaped)
  then have "shaped (cell_list sp sSat sFMax dt cs (spot_cell sp sSat sFMax dt iT iP s))"
    by (rule Cons.IH)
  then show ?case unfolding c by (simp add: cell_list_def)
qed

lemma cell_list_cells:
  assumes "shaped s" "distinct cs"
    and "\<forall>(iT, iP) \<in> set cs. iP < length (vP s) \<and> iT < length (vT s)"
  shows "mGridN (cell_list sp sSat sFMax dt cs s) ! p ! q =
           (if (q, p) \<in> set cs \<and> inside_spot sp s p q then cell_N sSat sFMax dt s p q
            else mGridN s ! p ! q) \<and>
         mGridDen (cell_list sp sSat sFMax dt cs s) ! p ! q =
           (if (q, p) \<in> set cs \<and> inside_spot sp s p q
            then fdiv (cell_N sSat sFMax dt s p q) (mGridVol s ! p ! q)
            else mGridDen s ! p ! q)"
  using assms
proof (induction cs arbitrary: s)
  case Nil
  show ?case by (simp add: cell_list_def)
next
  case (Cons c cs)
  obtain iT iP where c: "c = (iT, iP)" by (cases c)
  let ?s1 = "spot_cell sp sSat sFMax dt iT iP s"
  have b: "iP < length (vP s)" "iT < length (vT s)"
    using Cons.prems(3) by (auto simp: c)
  have fr: "same_frame s ?s1" by (rule spot_cell_frame)
  have sh: "shaped ?s1" using Cons.prems(1) by (rule spot_cell_shaped)
  have d: "distinct cs" "(iT, iP) \<notin> set cs" using Cons.prems(2) by (auto simp: c)
  have bs: "\<forall>(iT, iP) \<in> set cs. iP < length (vP ?s1) \<and> iT < length (vT ?s1)"
    using Cons.prems(3) fr by (auto simp: same_frame_def)
  note ih = Cons.IH [OF sh d(1) bs]
  have n1: "mGridN ?s1 ! p ! q =
     (if p = iP \<and> q = iT \<and> inside_spot sp s iP iT then cell_N sSat sFMax dt s iP iT
      else mGridN s ! p ! q)"
    by (rule spot_cell_N [OF Cons.prems(1) b])
  have d1: "mGridDen ?s1 ! p ! q =
     (if p = iP \<and> q = iT \<and> inside_spot sp s iP iT
      then fdiv (cell_N sSat sFMax dt s iP iT) (mGridVol s ! iP ! iT)
      else mGridDen s ! p ! q)"
    by (rule spot_cell_Den [OF Cons.prems(1) b])
  have ins: "inside_spot sp ?s1 p q = inside_spot sp s p q"
    using fr by (rule same_frame_inside)
  have cn: "(q, p) \<in> set cs \<Longrightarrow> cell_N sSat sFMax dt ?s1 p q = cell_N sSat sFMax dt s p q"
  proof -
    assume "(q, p) \<in> set cs"
    with d(2) have ne: "\<not> (p = iP \<and> q = iT)" by auto
    have "mGridN ?s1 ! p ! q = mGridN s ! p ! q" using n1 ne by auto
    moreover have "mGridDen ?s1 ! p ! q = mGridDen s ! p ! q" using d1 ne by auto
    moreover have "mGridBi ?s1 = mGridBi s" using fr by (simp add: same_frame_def)
    ultimately show ?thesis by (simp add: cell_N_def)
  qed
  have vol: "mGridVol ?s1 = mGridVol s" using fr by (simp add: same_frame_def)
  have unf: "cell_list sp sSat sFMax dt (c # cs) s = cell_list sp sSat sFMax dt cs ?s1"
    by (simp add: cell_list_def c)
  show ?case
    unfolding unf using ih n1 d1 ins cn vol d(2) by (auto simp: c)
qed

lemma nested_fold_product:
  "fold (\<lambda>iT. fold (\<lambda>iP. g iT iP) ps) ts s = fold (\<lambda>(iT, iP). g iT iP) (List.product ts ps) s"
proof (induction ts arbitrary: s)
  case Nil
  show ?case by simp
next
  case (Cons a ts)
  have "fold (\<lambda>(iT, iP). g iT iP) (map (Pair a) ps) s = fold (\<lambda>iP. g a iP) ps s"
    by (simp add: fold_map comp_def)
  then show ?case using Cons.IH by simp
qed

lemma spot_overlay_cell_list:
  "spot_overlay sp dt s =
     cell_list sp (fmul (spot_f sp) (spot_dSat sp)) (fmul (spot_f sp) (fMax sp)) dt
       (List.product [0..<length (vT s)] [0..<length (vP s)]) s"
  by (simp add: spot_overlay_def Let_def cell_list_def nested_fold_product)

lemma spot_overlay_frame: "same_frame s (spot_overlay sp dt s)"
  unfolding spot_overlay_cell_list by (rule cell_list_frame)

lemma spot_overlay_shaped: "shaped s \<Longrightarrow> shaped (spot_overlay sp dt s)"
  unfolding spot_overlay_cell_list by (rule cell_list_shaped)

lemma spot_overlay_cells:
  assumes "shaped s" "p < length (vP s)" "q < length (vT s)"
  shows "mGridN (spot_overlay sp dt s) ! p ! q =
           (if inside_spot sp s p q
            then cell_N (fmul (spot_f sp) (spot_dSat sp)) (fmul (spot_f sp) (fMax sp)) dt s p q
            else mGridN s ! p ! q)"
    and "mGridDen (spot_overlay sp dt s) ! p ! q =
           (if inside_spot sp s p q
            then fdiv (cell_N (fmul (spot_f sp) (spot_dSat sp)) (fmul (spot_f sp) (fMax sp)) dt s p q)
                   (mGridVol s ! p ! q)
            else mGridDen s ! p ! q)"
proof -
  let ?cs = "List.product [0..<length (vT s)] [0..<length (vP s)]"
  have d: "distinct ?cs" by (simp add: distinct_product)
  have b: "\<forall>(iT, iP) \<in> set ?cs. iP < length (vP s) \<and> iT < length (vT s)" by auto
  have m: "(q, p) \<in> set ?cs" using assms(2,3) by simp
  note c = cell_list_cells [OF assms(1) d b, of sp "fmul (spot_f sp) (spot_dSat sp)"
      "fmul (spot_f sp) (fMax sp)" dt p q]
  show "mGridN (spot_overlay sp dt s) ! p ! q =
           (if inside_spot sp s p q
            then cell_N (fmul (spot_f sp) (spot_dSat sp)) (fmul (spot_f sp) (fMax sp)) dt s p q
            else mGridN s ! p ! q)"
    unfolding spot_overlay_cell_list using c m by simp
  show "mGridDen (spot_overlay sp dt s) ! p ! q =
           (if inside_spot sp s p q
            then fdiv (cell_N (fmul (spot_f sp) (spot_dSat sp)) (fmul (spot_f sp) (fMax sp)) dt s p q)
                   (mGridVol s ! p ! q)
            else mGridDen s ! p ! q)"
    unfolding spot_overlay_cell_list using c m by simp
qed

lemma cell_N_zero_saturation: "\<not> is_finite (cell_N (Fin 0) sFMax dt s iP iT)"
  unfolding cell_N_def
  by (intro fadd_nonfinite fdiv_nonfinite fmul_nonfinite fdiv_zero_nonfinite)

lemma setTime_fields:
  "spot_t (setTime sp time) = time" "spot_tStart (setTime sp time) = spot_tStart sp"
  "spot_tEnd (setTime sp time) = spot_tEnd sp"
  by (simp_all add: setTime_def)

lemma spot_overlay_setTime: "spot_overlay (setTime sp time) dt s = spot_overlay sp dt s"
proof -
  have "spot_cell (setTime sp time) = spot_cell sp"
    by (intro ext) (simp add: spot_cell_def cell_r_def setTime_def)
  then show ?thesis by (simp add: spot_overlay_def spot_dSat_def setTime_def)
qed

lemma filling_active:
  "spot_tStart sp \<le> spot_t sp \<Longrightarrow> spot_t sp \<le> spot_tEnd sp \<Longrightarrow>
   filling sp B s dt = spot_overlay sp dt (B s dt)"
  by (simp add: filling_def)

lemma filling_inactive:
  "spot_t sp < spot_tStart sp \<or> spot_tEnd sp < spot_t sp \<Longrightarrow> filling sp B s dt = B s dt"
  by (auto simp: filling_def)

lemma filling_frame: "same_frame (B s dt) (filling sp B s dt)"
  by (simp add: filling_def Let_def spot_overlay_frame) (simp add: same_frame_def)

lemma filling_cells:
  assumes "spot_tStart sp \<le> spot_t sp" "spot_t sp \<le> spot_tEnd sp"
    and "shaped (B s dt)" "iP < length (vP (B s dt))" "iT < length (vT (B s dt))"
  shows "mGridN (filling sp B s dt) ! iP ! iT =
           (if inside_spot sp (B s dt) iP iT
            then cell_N (fmul (spot_f sp) (spot_dSat sp)) (fmul (spot_f sp) (fMax sp)) dt
                   (B s dt) iP iT
            else mGridN (B s dt) ! iP ! iT)"
    and "mGridDen (filling sp B s dt) ! iP ! iT =
           (if inside_spot sp (B s dt) iP iT
            then fdiv (cell_N (fmul (spot_f sp) (spot_dSat sp)) (fmul (spot_f sp) (fMax sp)) dt
                   (B s dt) iP iT) (mGridVol (B s dt) ! iP ! iT)
            else mGridDen (B s dt) ! iP ! iT)"
  unfolding filling_active [OF assms(1,2)]
  by (rule spot_overlay_cells [OF assms(3,4,5)])+


section \<open>The stage on the example grid\<close>

lemma ex_base:
  "ex_FILLING ex_grids (Fin 2) = ex_grids\<lparr>mGridN := [[Fin 3], [Fin 3], [Fin 3]],
     mGridDen := [[Fin 30], [Fin 30], [Fin 30]]\<rparr>"
  by (simp add: ex_FILLING_def ex_grids_def)

lemma ex_shaped: "shaped (ex_FILLING ex_grids (Fin 2))"
  unfolding ex_base by (simp add: shaped_def grid_shape_def ex_grids_def)

lemma ex_lengths:
  "0 < length (vP (ex_FILLING ex_grids (Fin 2)))" "0 < length (vT (ex_FILLING ex_grids (Fin 2)))"
  unfolding ex_base by (simp_all add: ex_grids_def)

lemma ex_sine: "fsin (fmul (fdiv (Fin 90) (Fin 180)) M_PI) = Fin 1"
proof -
  have "90 * pi / 180 = pi / 2" by simp
  then show ?thesis by (simp add: M_PI_def)
qed

lemma ex_r0: "cell_r (sp\<lparr>tCenter := Fin 90, pCenter := Fin 350\<rparr>) (Fin 90) (Fin 350) = Fin 0"
  by (simp add: cell_r_def wrap_dP_Fin fsub_def M_PI_def RE_def Let_def)

lemma ex_dSat: "spot_dSat ex_spot = Fin 5"
proof -
  have p: "tCenter ex_spot = Fin 90" "saturation ex_spot = (\<lambda>l. fmul (Fin 5) l)"
    by (simp_all add: ex_spot_def)
  show ?thesis unfolding spot_dSat_def p ex_sine by simp
qed

lemma ex_cell_N:
  "cell_N (fmul (spot_f ex_spot) (spot_dSat ex_spot)) (fmul (spot_f ex_spot) (fMax ex_spot))
     (Fin 2) (ex_FILLING ex_grids (Fin 2)) 0 0 = Fin 7"
  unfolding ex_dSat ex_base by (simp add: cell_N_def ex_spot_def ex_grids_def fsub_def)

lemma ex_spot_zero_facts:
  "spot_tStart ex_spot_zero \<le> spot_t ex_spot_zero" "spot_t ex_spot_zero \<le> spot_tEnd ex_spot_zero"
  "fless (cell_r ex_spot_zero (vT (ex_FILLING ex_grids (Fin 2)) ! 0)
      (vP (ex_FILLING ex_grids (Fin 2)) ! 0)) (spot_R ex_spot_zero)"
  "spot_dSat ex_spot_zero = Fin 0" "spot_f ex_spot_zero = Fin 10" "fMax ex_spot_zero = Fin 2"
proof -
  show "spot_tStart ex_spot_zero \<le> spot_t ex_spot_zero" "spot_t ex_spot_zero \<le> spot_tEnd ex_spot_zero"
    "spot_dSat ex_spot_zero = Fin 0" "spot_f ex_spot_zero = Fin 10" "fMax ex_spot_zero = Fin 2"
    by (simp_all add: ex_spot_zero_def ex_spot_def spot_dSat_def)
  have v: "vT (ex_FILLING ex_grids (Fin 2)) ! 0 = Fin 90" "vP (ex_FILLING ex_grids (Fin 2)) ! 0 = Fin 350"
    unfolding ex_base by (simp_all add: ex_grids_def)
  show "fless (cell_r ex_spot_zero (vT (ex_FILLING ex_grids (Fin 2)) ! 0)
      (vP (ex_FILLING ex_grids (Fin 2)) ! 0)) (spot_R ex_spot_zero)"
    unfolding v using ex_r0 [of ex_spot_zero] by (simp add: ex_spot_zero_def ex_spot_def)
qed


section \<open>The time interval of the spot\<close>

text \<open>
  C2: the stage runs the loops of the spot exactly when the time it was given lies
  between \<^verbatim>\<open>tStart\<close> and \<^verbatim>\<open>tEnd\<close>, both ends included. At a time strictly before
  \<^verbatim>\<open>tStart\<close> or strictly after \<^verbatim>\<open>tEnd\<close> it returns what the default filling left.
  With the time set to exactly \<^verbatim>\<open>tStart\<close> or exactly \<^verbatim>\<open>tEnd\<close> of an interval that is
  not empty, a cell within the radius receives the injection.
\<close>

theorem spot_window_closed:
  "(spot_tStart sp \<le> time \<and> time \<le> spot_tEnd sp \<longrightarrow>
      filling (setTime sp time) FILLING_filling s dt =
        spot_overlay sp dt (FILLING_filling s dt)) \<and>
   (time < spot_tStart sp \<or> spot_tEnd sp < time \<longrightarrow>
      filling (setTime sp time) FILLING_filling s dt = FILLING_filling s dt) \<and>
   (spot_tStart sp \<le> spot_tEnd sp \<longrightarrow> time = spot_tStart sp \<or> time = spot_tEnd sp \<longrightarrow>
    shaped (FILLING_filling s dt) \<longrightarrow>
    iP < length (vP (FILLING_filling s dt)) \<longrightarrow> iT < length (vT (FILLING_filling s dt)) \<longrightarrow>
    fless (cell_r sp (vT (FILLING_filling s dt) ! iT) (vP (FILLING_filling s dt) ! iP))
      (spot_R sp) \<longrightarrow>
      mGridN (filling (setTime sp time) FILLING_filling s dt) ! iP ! iT =
        cell_N (fmul (spot_f sp) (spot_dSat sp)) (fmul (spot_f sp) (fMax sp)) dt
          (FILLING_filling s dt) iP iT)"
proof (intro conjI impI)
  assume "spot_tStart sp \<le> time \<and> time \<le> spot_tEnd sp"
  then show "filling (setTime sp time) FILLING_filling s dt =
      spot_overlay sp dt (FILLING_filling s dt)"
    by (simp add: filling_def Let_def setTime_fields spot_overlay_setTime)
next
  assume "time < spot_tStart sp \<or> spot_tEnd sp < time"
  then show "filling (setTime sp time) FILLING_filling s dt = FILLING_filling s dt"
    by (intro filling_inactive) (simp add: setTime_fields)
next
  assume w: "spot_tStart sp \<le> spot_tEnd sp" "time = spot_tStart sp \<or> time = spot_tEnd sp"
    and sh: "shaped (FILLING_filling s dt)"
    and b: "iP < length (vP (FILLING_filling s dt))" "iT < length (vT (FILLING_filling s dt))"
    and r: "fless (cell_r sp (vT (FILLING_filling s dt) ! iT) (vP (FILLING_filling s dt) ! iP))
      (spot_R sp)"
  from w have "spot_tStart sp \<le> time \<and> time \<le> spot_tEnd sp" by auto
  then have "filling (setTime sp time) FILLING_filling s dt =
      spot_overlay sp dt (FILLING_filling s dt)"
    by (simp add: filling_def Let_def setTime_fields spot_overlay_setTime)
  then show "mGridN (filling (setTime sp time) FILLING_filling s dt) ! iP ! iT =
        cell_N (fmul (spot_f sp) (spot_dSat sp)) (fmul (spot_f sp) (fMax sp)) dt
          (FILLING_filling s dt) iP iT"
    using spot_overlay_cells(1) [OF sh b, of sp dt] r by (simp add: inside_spot_def)
qed

theorem spot_window_closed_witness:
  "mGridN (ex_FILLING ex_grids (Fin 2)) ! 0 ! 0 = Fin 3 \<and>
   spot_tStart ex_spot = 0 \<and> spot_tEnd ex_spot = 0 + 100 \<and>
   mGridN (filling (setTime ex_spot 0) ex_FILLING ex_grids (Fin 2)) ! 0 ! 0 = Fin 7 \<and>
   mGridN (filling (setTime ex_spot (0 + 100)) ex_FILLING ex_grids (Fin 2)) ! 0 ! 0 = Fin 7 \<and>
   filling (setTime ex_spot (0 - 1)) ex_FILLING ex_grids (Fin 2) = ex_FILLING ex_grids (Fin 2) \<and>
   filling (setTime ex_spot (0 + 101)) ex_FILLING ex_grids (Fin 2) = ex_FILLING ex_grids (Fin 2)"
proof -
  have w: "spot_tStart ex_spot = 0" "spot_tEnd ex_spot = 100" by (simp_all add: ex_spot_def)
  have b: "0 < length (vP (ex_FILLING ex_grids (Fin 2)))"
    "0 < length (vT (ex_FILLING ex_grids (Fin 2)))"
    unfolding ex_base by (simp_all add: ex_grids_def)
  have v: "vT (ex_FILLING ex_grids (Fin 2)) ! 0 = Fin 90" "vP (ex_FILLING ex_grids (Fin 2)) ! 0 = Fin 350"
    "mGridN (ex_FILLING ex_grids (Fin 2)) ! 0 ! 0 = Fin 3"
    unfolding ex_base by (simp_all add: ex_grids_def)
  have r: "fless (cell_r ex_spot (vT (ex_FILLING ex_grids (Fin 2)) ! 0)
      (vP (ex_FILLING ex_grids (Fin 2)) ! 0)) (spot_R ex_spot)"
    unfolding v using ex_r0 [of ex_spot] by (simp add: ex_spot_def)
  note th = spot_window_closed [where sp = ex_spot and FILLING_filling = ex_FILLING
      and s = ex_grids and dt = "Fin 2" and iP = 0 and iT = 0]
  from th [where time = 0, THEN conjunct2, THEN conjunct2] w ex_shaped b r
  have 1: "mGridN (filling (setTime ex_spot 0) ex_FILLING ex_grids (Fin 2)) ! 0 ! 0 = Fin 7"
    by (simp add: ex_cell_N)
  from th [where time = 100, THEN conjunct2, THEN conjunct2] w ex_shaped b r
  have 2: "mGridN (filling (setTime ex_spot 100) ex_FILLING ex_grids (Fin 2)) ! 0 ! 0 = Fin 7"
    by (simp add: ex_cell_N)
  from th [where time = "- 1", THEN conjunct2, THEN conjunct1] w
  have 3: "filling (setTime ex_spot (- 1)) ex_FILLING ex_grids (Fin 2) =
      ex_FILLING ex_grids (Fin 2)" by simp
  from th [where time = 101, THEN conjunct2, THEN conjunct1] w
  have 4: "filling (setTime ex_spot 101) ex_FILLING ex_grids (Fin 2) =
      ex_FILLING ex_grids (Fin 2)" by simp
  from 1 2 3 4 w v(3) show ?thesis by simp
qed

text \<open>
  C6: with the current time strictly outside the interval from \<^verbatim>\<open>tStart\<close> to
  \<^verbatim>\<open>tEnd\<close>, the stage leaves exactly what the default filling leaves, in every grid
  and in every coordinate vector.
\<close>

theorem filling_outside_window:
  assumes "spot_t sp < spot_tStart sp \<or> spot_tEnd sp < spot_t sp"
  shows "filling sp FILLING_filling s dt = FILLING_filling s dt"
  using assms by (auto simp: filling_def)

theorem filling_outside_window_witness:
  "(spot_t (setTime ex_spot 101) < spot_tStart (setTime ex_spot 101) \<or>
      spot_tEnd (setTime ex_spot 101) < spot_t (setTime ex_spot 101)) \<and>
   filling (setTime ex_spot 101) ex_FILLING ex_grids (Fin 2) = ex_FILLING ex_grids (Fin 2) \<and>
   mGridN (filling (setTime ex_spot 101) ex_FILLING ex_grids (Fin 2)) =
     [[Fin 3], [Fin 3], [Fin 3]]"
  using filling_outside_window [of "setTime ex_spot 101" ex_FILLING ex_grids "Fin 2"]
  by (simp add: setTime_def ex_spot_def ex_FILLING_def ex_grids_def)


section \<open>The wrap of the local time\<close>

text \<open>
  C3, as amended: for finite longitudes whose difference is at most 540 in absolute
  value (so for all longitudes between 0 and 360), the difference is reduced by 360
  when it is above 180 and raised by 360 when it is below \<open>-180\<close>, and the result lies
  in the closed interval from \<open>-180\<close> to 180; a difference of exactly \<open>-180\<close> stays.
\<close>

theorem wrap_dP_range:
  assumes "\<bar>lon - centre\<bar> \<le> 540"
  shows "wrap_dP (Fin lon) (Fin centre) =
           Fin (if 180 < lon - centre then lon - centre - 360
                else if lon - centre < - 180 then lon - centre + 360 else lon - centre) \<and>
         (\<exists>d. wrap_dP (Fin lon) (Fin centre) = Fin d \<and> - 180 \<le> d \<and> d \<le> 180)"
  using assms by (auto simp: wrap_dP_Fin)

theorem wrap_dP_range_witness:
  "\<bar>10 - 350 :: real\<bar> \<le> 540 \<and> wrap_dP (Fin 10) (Fin 350) = Fin 20"
  using wrap_dP_range [of 10 350] by simp

text \<open>
  C3 as stated fails at the lower end of the interval: a grid longitude of 0 and a spot
  centre at 180 give the difference \<open>-180\<close>, which neither test changes, and \<open>-180\<close> is
  not in the interval that is open at \<open>-180\<close>.
\<close>

theorem wrap_dP_counterexample:
  "wrap_dP (Fin 0) (Fin 180) = Fin (- 180) \<and> (- 180 :: real) \<notin> {- 180 <.. 180}"
  by (simp add: wrap_dP_Fin)


section \<open>The injection and the density\<close>

text \<open>
  C4: inside the time interval the stage takes the saturation at
  \<open>1 / sin\<^sup>2\<close> of the colatitude of the centre, multiplies it and \<^verbatim>\<open>fMax\<close> by the
  factor of the spot, and then changes exactly the cells whose distance from the centre
  is strictly below the radius: such a cell gets
  \<open>flux * dt / Bi\<close> added to its \<^verbatim>\<open>N\<close>, with
  \<open>flux = (sSat - Den) / sSat * sFMax\<close>, and its density is set to the new \<^verbatim>\<open>N\<close>
  over the volume. A cell at the radius or beyond keeps what the default filling left.
\<close>

theorem spot_injection:
  assumes "spot_tStart sp \<le> spot_t sp" and "spot_t sp \<le> spot_tEnd sp"
    and "shaped (FILLING_filling s dt)"
    and "iP < length (vP (FILLING_filling s dt))" and "iT < length (vT (FILLING_filling s dt))"
  shows "let b = FILLING_filling s dt;
             a = filling sp FILLING_filling s dt;
             sine = fsin (fmul (fdiv (tCenter sp) (Fin 180)) M_PI);
             spotSaturation = fmul (spot_f sp) (saturation sp (fdiv (Fin 1) (fmul sine sine)));
             spotPeakRate = fmul (spot_f sp) (fMax sp);
             r = cell_r sp (vT b ! iT) (vP b ! iP);
             flux = fmul (fdiv (fsub spotSaturation (mGridDen b ! iP ! iT)) spotSaturation)
                      spotPeakRate
         in (if fless r (spot_R sp)
             then mGridN a ! iP ! iT =
                    fadd (mGridN b ! iP ! iT) (fdiv (fmul flux dt) (mGridBi b ! iP ! iT)) \<and>
                  mGridDen a ! iP ! iT = fdiv (mGridN a ! iP ! iT) (mGridVol b ! iP ! iT)
             else mGridN a ! iP ! iT = mGridN b ! iP ! iT \<and>
                  mGridDen a ! iP ! iT = mGridDen b ! iP ! iT) \<and>
            (r = spot_R sp \<longrightarrow> mGridN a ! iP ! iT = mGridN b ! iP ! iT \<and>
                  mGridDen a ! iP ! iT = mGridDen b ! iP ! iT)"
proof -
  have sat: "spot_dSat sp = saturation sp (fdiv (Fin 1)
      (fmul (fsin (fmul (fdiv (tCenter sp) (Fin 180)) M_PI))
            (fsin (fmul (fdiv (tCenter sp) (Fin 180)) M_PI))))"
    by (simp add: spot_dSat_def fdiv_twice)
  note c = filling_cells [where B = FILLING_filling and s = s and dt = dt, OF assms]
  show ?thesis
    unfolding Let_def c sat [symmetric]
    by (auto simp: inside_spot_def cell_N_def fless_irrefl)
qed

theorem spot_injection_witness:
  "spot_tStart ex_spot \<le> spot_t ex_spot \<and> spot_t ex_spot \<le> spot_tEnd ex_spot \<and>
   shaped (ex_FILLING ex_grids (Fin 2)) \<and>
   0 < length (vP (ex_FILLING ex_grids (Fin 2))) \<and>
   0 < length (vT (ex_FILLING ex_grids (Fin 2))) \<and>
   cell_r ex_spot (Fin 90) (Fin 350) = Fin 0 \<and>
   mGridN (ex_FILLING ex_grids (Fin 2)) ! 0 ! 0 = Fin 3 \<and>
   mGridN (filling ex_spot ex_FILLING ex_grids (Fin 2)) ! 0 ! 0 = Fin 7 \<and>
   mGridDen (filling ex_spot ex_FILLING ex_grids (Fin 2)) ! 0 ! 0 = Fin 70 \<and>
   cell_r (ex_spot\<lparr>spot_R := Fin 0\<rparr>) (Fin 90) (Fin 350) = spot_R (ex_spot\<lparr>spot_R := Fin 0\<rparr>) \<and>
   mGridN (filling (ex_spot\<lparr>spot_R := Fin 0\<rparr>) ex_FILLING ex_grids (Fin 2)) ! 0 ! 0 = Fin 3"
proof -
  have t: "spot_tStart ex_spot \<le> spot_t ex_spot" "spot_t ex_spot \<le> spot_tEnd ex_spot"
    by (simp_all add: ex_spot_def)
  have b: "0 < length (vP (ex_FILLING ex_grids (Fin 2)))"
    "0 < length (vT (ex_FILLING ex_grids (Fin 2)))"
    unfolding ex_base by (simp_all add: ex_grids_def)
  have r: "cell_r ex_spot (Fin 90) (Fin 350) = Fin 0"
    "cell_r (ex_spot\<lparr>spot_R := Fin 0\<rparr>) (Fin 90) (Fin 350) = Fin 0"
    using ex_r0 [of ex_spot] ex_r0 [of "ex_spot\<lparr>spot_R := Fin 0\<rparr>"]
    by (simp_all add: ex_spot_def)
  have t0: "spot_tStart (ex_spot\<lparr>spot_R := Fin 0\<rparr>) \<le> spot_t (ex_spot\<lparr>spot_R := Fin 0\<rparr>)"
    "spot_t (ex_spot\<lparr>spot_R := Fin 0\<rparr>) \<le> spot_tEnd (ex_spot\<lparr>spot_R := Fin 0\<rparr>)"
    by (simp_all add: ex_spot_def)
  have v: "vT (ex_FILLING ex_grids (Fin 2)) ! 0 = Fin 90" "vP (ex_FILLING ex_grids (Fin 2)) ! 0 = Fin 350"
    "mGridN (ex_FILLING ex_grids (Fin 2)) ! 0 ! 0 = Fin 3"
    "mGridDen (ex_FILLING ex_grids (Fin 2)) ! 0 ! 0 = Fin 30"
    "mGridVol (ex_FILLING ex_grids (Fin 2)) ! 0 ! 0 = Fin (1 / 10)"
    "mGridBi (ex_FILLING ex_grids (Fin 2)) ! 0 ! 0 = Fin 4"
    unfolding ex_base by (simp_all add: ex_grids_def)
  have p: "tCenter ex_spot = Fin 90" "spot_f ex_spot = Fin 10" "fMax ex_spot = Fin 2"
    "spot_R ex_spot = Fin 3000" "saturation ex_spot = (\<lambda>l. fmul (Fin 5) l)"
    by (simp_all add: ex_spot_def)
  from spot_injection [where FILLING_filling = ex_FILLING and s = ex_grids and dt = "Fin 2",
      OF t ex_shaped b, unfolded Let_def v r p ex_sine]
  have "mGridN (filling ex_spot ex_FILLING ex_grids (Fin 2)) ! 0 ! 0 = Fin 7 \<and>
   mGridDen (filling ex_spot ex_FILLING ex_grids (Fin 2)) ! 0 ! 0 = Fin 70"
    by (simp add: fsub_def)
  moreover from spot_injection [where FILLING_filling = ex_FILLING and s = ex_grids
      and dt = "Fin 2", OF t0 ex_shaped b, unfolded Let_def v r]
  have "mGridN (filling (ex_spot\<lparr>spot_R := Fin 0\<rparr>) ex_FILLING ex_grids (Fin 2)) ! 0 ! 0 = Fin 3"
    by simp
  ultimately show ?thesis using t ex_shaped b r v(3) by simp
qed

text \<open>
  C5: the stage never changes a volume, and a cell whose \<^verbatim>\<open>N\<close> the stage changes
  after the default filling ends with its density equal to its \<^verbatim>\<open>N\<close> over its volume;
  so a cell that the default filling left consistent stays consistent. The body of the
  loops itself, whenever it changes the \<^verbatim>\<open>N\<close> of a cell, leaves the density of that
  cell recomputed.
\<close>

theorem density_consistency:
  assumes "shaped (FILLING_filling s dt)"
    and "iP < length (vP (FILLING_filling s dt))" and "iT < length (vT (FILLING_filling s dt))"
    and "shaped s1" and "jP < length (vP s1)" and "jT < length (vT s1)"
  shows "let b = FILLING_filling s dt; a = filling sp FILLING_filling s dt;
             c = spot_cell sp sSat sFMax dt jT jP s1
         in mGridVol a = mGridVol b \<and>
            (mGridN a ! iP ! iT \<noteq> mGridN b ! iP ! iT \<longrightarrow>
               mGridDen a ! iP ! iT = fdiv (mGridN a ! iP ! iT) (mGridVol a ! iP ! iT)) \<and>
            (mGridDen b ! iP ! iT = fdiv (mGridN b ! iP ! iT) (mGridVol b ! iP ! iT) \<longrightarrow>
               mGridDen a ! iP ! iT = fdiv (mGridN a ! iP ! iT) (mGridVol a ! iP ! iT)) \<and>
            (mGridN c \<noteq> mGridN s1 \<longrightarrow>
               mGridDen c ! jP ! jT = fdiv (mGridN c ! jP ! jT) (mGridVol c ! jP ! jT))"
proof -
  let ?b = "FILLING_filling s dt" and ?a = "filling sp FILLING_filling s dt"
  let ?c = "spot_cell sp sSat sFMax dt jT jP s1"
  have vol: "mGridVol ?a = mGridVol ?b"
    using filling_frame [of FILLING_filling s dt sp] by (simp add: same_frame_def)
  have cells: "(mGridN ?a ! iP ! iT = mGridN ?b ! iP ! iT \<and>
        mGridDen ?a ! iP ! iT = mGridDen ?b ! iP ! iT) \<or>
      mGridDen ?a ! iP ! iT = fdiv (mGridN ?a ! iP ! iT) (mGridVol ?b ! iP ! iT)"
  proof (cases "spot_tStart sp \<le> spot_t sp \<and> spot_t sp \<le> spot_tEnd sp")
    case True
    then have t: "spot_tStart sp \<le> spot_t sp" "spot_t sp \<le> spot_tEnd sp" by simp_all
    note c = filling_cells [where B = FILLING_filling and s = s and dt = dt, OF t assms(1,2,3)]
    show ?thesis unfolding c by simp
  next
    case False
    then have "?a = ?b" by (auto simp: filling_def)
    then show ?thesis by simp
  qed
  have step: "mGridN ?c \<noteq> mGridN s1 \<longrightarrow>
      mGridDen ?c ! jP ! jT = fdiv (mGridN ?c ! jP ! jT) (mGridVol ?c ! jP ! jT)"
  proof
    assume ne: "mGridN ?c \<noteq> mGridN s1"
    then have ins: "inside_spot sp s1 jP jT"
      by (auto simp: spot_cell_def inside_spot_def Let_def split: if_splits)
    have "mGridVol ?c = mGridVol s1"
      using spot_cell_frame [of s1 sp sSat sFMax dt jT jP] by (simp add: same_frame_def)
    then show "mGridDen ?c ! jP ! jT = fdiv (mGridN ?c ! jP ! jT) (mGridVol ?c ! jP ! jT)"
      using ins by (simp add: spot_cell_N [OF assms(4,5,6)] spot_cell_Den [OF assms(4,5,6)])
  qed
  show ?thesis unfolding Let_def using vol cells step by auto
qed

theorem density_consistency_witness:
  "shaped (ex_FILLING ex_grids (Fin 2)) \<and>
   mGridN (ex_FILLING ex_grids (Fin 2)) ! 0 ! 0 = Fin 3 \<and>
   mGridN (filling ex_spot ex_FILLING ex_grids (Fin 2)) ! 0 ! 0 = Fin 7 \<and>
   mGridVol (filling ex_spot ex_FILLING ex_grids (Fin 2)) ! 0 ! 0 = Fin (1 / 10) \<and>
   mGridDen (filling ex_spot ex_FILLING ex_grids (Fin 2)) ! 0 ! 0 = Fin 70 \<and>
   fdiv (Fin 7) (Fin (1 / 10)) = Fin 70 \<and>
   mGridN (spot_cell ex_spot (Fin 50) (Fin 20) (Fin 2) 0 0 (ex_FILLING ex_grids (Fin 2))) \<noteq>
     mGridN (ex_FILLING ex_grids (Fin 2)) \<and>
   mGridDen (spot_cell ex_spot (Fin 50) (Fin 20) (Fin 2) 0 0 (ex_FILLING ex_grids (Fin 2)))
     ! 0 ! 0 = Fin 70"
proof -
  have t: "spot_tStart ex_spot \<le> spot_t ex_spot" "spot_t ex_spot \<le> spot_tEnd ex_spot"
    by (simp_all add: ex_spot_def)
  have v: "vT (ex_FILLING ex_grids (Fin 2)) ! 0 = Fin 90" "vP (ex_FILLING ex_grids (Fin 2)) ! 0 = Fin 350"
    "mGridN (ex_FILLING ex_grids (Fin 2)) ! 0 ! 0 = Fin 3"
    "mGridVol (ex_FILLING ex_grids (Fin 2)) ! 0 ! 0 = Fin (1 / 10)"
    "mGridDen (ex_FILLING ex_grids (Fin 2)) ! 0 ! 0 = Fin 30"
    "mGridBi (ex_FILLING ex_grids (Fin 2)) ! 0 ! 0 = Fin 4"
    unfolding ex_base by (simp_all add: ex_grids_def)
  have ins: "inside_spot ex_spot (ex_FILLING ex_grids (Fin 2)) 0 0"
    unfolding inside_spot_def v using ex_r0 [of ex_spot] by (simp add: ex_spot_def)
  have n: "mGridN (filling ex_spot ex_FILLING ex_grids (Fin 2)) ! 0 ! 0 = Fin 7"
    using filling_cells(1) [where B = ex_FILLING and s = ex_grids and dt = "Fin 2",
        OF t ex_shaped ex_lengths] ins
    by (simp add: ex_cell_N)
  have c: "mGridN (spot_cell ex_spot (Fin 50) (Fin 20) (Fin 2) 0 0
      (ex_FILLING ex_grids (Fin 2))) ! 0 ! 0 = Fin 7"
    using spot_cell_N [OF ex_shaped ex_lengths, of ex_spot "Fin 50" "Fin 20" "Fin 2" 0 0] ins
    by (simp add: cell_N_def v fsub_def)
  have ne: "mGridN (spot_cell ex_spot (Fin 50) (Fin 20) (Fin 2) 0 0
      (ex_FILLING ex_grids (Fin 2))) \<noteq> mGridN (ex_FILLING ex_grids (Fin 2))"
  proof
    assume "mGridN (spot_cell ex_spot (Fin 50) (Fin 20) (Fin 2) 0 0
      (ex_FILLING ex_grids (Fin 2))) = mGridN (ex_FILLING ex_grids (Fin 2))"
    with c v(3) show False by simp
  qed
  have cv: "mGridVol (spot_cell ex_spot (Fin 50) (Fin 20) (Fin 2) 0 0
      (ex_FILLING ex_grids (Fin 2))) = mGridVol (ex_FILLING ex_grids (Fin 2))"
    using spot_cell_frame [of "ex_FILLING ex_grids (Fin 2)" ex_spot "Fin 50" "Fin 20" "Fin 2" 0 0]
    by (simp add: same_frame_def)
  note th = density_consistency [where FILLING_filling = ex_FILLING and s = ex_grids
      and dt = "Fin 2" and sp = ex_spot and ?s1.0 = "ex_FILLING ex_grids (Fin 2)"
      and sSat = "Fin 50" and sFMax = "Fin 20",
      OF ex_shaped ex_lengths ex_shaped ex_lengths, unfolded Let_def]
  from th [THEN conjunct1] th [THEN conjunct2, THEN conjunct1] n v(3,4)
  have 1: "mGridVol (filling ex_spot ex_FILLING ex_grids (Fin 2)) ! 0 ! 0 = Fin (1 / 10)"
    "mGridDen (filling ex_spot ex_FILLING ex_grids (Fin 2)) ! 0 ! 0 = Fin 70"
    by simp_all
  from th [THEN conjunct2, THEN conjunct2, THEN conjunct2, rule_format, OF ne] c cv v(4)
  have 2: "mGridDen (spot_cell ex_spot (Fin 50) (Fin 20) (Fin 2) 0 0
      (ex_FILLING ex_grids (Fin 2))) ! 0 ! 0 = Fin 70"
    by simp
  from 1 2 n v(3) ne ex_shaped show ?thesis by simp
qed


section \<open>A saturation of zero\<close>

text \<open>
  C7, as amended: the stage does not look at the value of the saturation and has no
  way to fail. Inside the time interval it divides by the saturation of the spot for
  every cell within the radius, whatever that value is; when the saturation of the
  spot is zero, each such cell ends with an \<^verbatim>\<open>N\<close> and a density that are not finite.
\<close>

theorem saturation_unchecked:
  assumes "spot_tStart sp \<le> spot_t sp" and "spot_t sp \<le> spot_tEnd sp"
    and "shaped (FILLING_filling s dt)"
    and "iP < length (vP (FILLING_filling s dt))" and "iT < length (vT (FILLING_filling s dt))"
    and "fless (cell_r sp (vT (FILLING_filling s dt) ! iT) (vP (FILLING_filling s dt) ! iP))
           (spot_R sp)"
  shows "mGridN (filling sp FILLING_filling s dt) ! iP ! iT =
           fadd (mGridN (FILLING_filling s dt) ! iP ! iT)
             (fdiv (fmul (fmul (fdiv (fsub (fmul (spot_f sp) (spot_dSat sp))
                                       (mGridDen (FILLING_filling s dt) ! iP ! iT))
                                 (fmul (spot_f sp) (spot_dSat sp)))
                           (fmul (spot_f sp) (fMax sp))) dt)
                (mGridBi (FILLING_filling s dt) ! iP ! iT)) \<and>
         (fmul (spot_f sp) (spot_dSat sp) = Fin 0 \<longrightarrow>
            \<not> is_finite (mGridN (filling sp FILLING_filling s dt) ! iP ! iT) \<and>
            \<not> is_finite (mGridDen (filling sp FILLING_filling s dt) ! iP ! iT))"
proof -
  note c = filling_cells [where B = FILLING_filling and s = s and dt = dt, OF assms(1-5)]
  have ins: "inside_spot sp (FILLING_filling s dt) iP iT"
    using assms(6) by (simp add: inside_spot_def)
  have n: "mGridN (filling sp FILLING_filling s dt) ! iP ! iT =
      cell_N (fmul (spot_f sp) (spot_dSat sp)) (fmul (spot_f sp) (fMax sp)) dt
        (FILLING_filling s dt) iP iT"
    and d: "mGridDen (filling sp FILLING_filling s dt) ! iP ! iT =
      fdiv (cell_N (fmul (spot_f sp) (spot_dSat sp)) (fmul (spot_f sp) (fMax sp)) dt
        (FILLING_filling s dt) iP iT) (mGridVol (FILLING_filling s dt) ! iP ! iT)"
    using c ins by simp_all
  show ?thesis
  proof (intro conjI impI)
    show "mGridN (filling sp FILLING_filling s dt) ! iP ! iT =
           fadd (mGridN (FILLING_filling s dt) ! iP ! iT)
             (fdiv (fmul (fmul (fdiv (fsub (fmul (spot_f sp) (spot_dSat sp))
                                       (mGridDen (FILLING_filling s dt) ! iP ! iT))
                                 (fmul (spot_f sp) (spot_dSat sp)))
                           (fmul (spot_f sp) (fMax sp))) dt)
                (mGridBi (FILLING_filling s dt) ! iP ! iT))"
      unfolding n by (simp add: cell_N_def)
  next
    assume z: "fmul (spot_f sp) (spot_dSat sp) = Fin 0"
    show "\<not> is_finite (mGridN (filling sp FILLING_filling s dt) ! iP ! iT)"
      unfolding n z by (rule cell_N_zero_saturation)
    show "\<not> is_finite (mGridDen (filling sp FILLING_filling s dt) ! iP ! iT)"
      unfolding d z by (rule fdiv_nonfinite [OF cell_N_zero_saturation])
  qed
qed

theorem saturation_unchecked_witness:
  "spot_tStart ex_spot_zero \<le> spot_t ex_spot_zero \<and> spot_t ex_spot_zero \<le> spot_tEnd ex_spot_zero \<and>
   shaped (ex_FILLING ex_grids (Fin 2)) \<and>
   fmul (spot_f ex_spot_zero) (spot_dSat ex_spot_zero) = Fin 0 \<and>
   \<not> is_finite (mGridN (filling ex_spot_zero ex_FILLING ex_grids (Fin 2)) ! 0 ! 0) \<and>
   \<not> is_finite (mGridDen (filling ex_spot_zero ex_FILLING ex_grids (Fin 2)) ! 0 ! 0)"
proof -
  have z: "fmul (spot_f ex_spot_zero) (spot_dSat ex_spot_zero) = Fin 0"
    by (simp add: ex_spot_zero_facts(4,5))
  note th = saturation_unchecked [where FILLING_filling = ex_FILLING and s = ex_grids
      and dt = "Fin 2", OF ex_spot_zero_facts(1,2) ex_shaped ex_lengths ex_spot_zero_facts(3)]
  from th [THEN conjunct2, rule_format, OF z] z ex_spot_zero_facts(1,2) ex_shaped
  show ?thesis by blast
qed

text \<open>
  C7 as stated fails: with a saturation function that returns zero and every input
  finite, the stage inside the time interval returns normally, and the cell at the
  centre of the spot holds minus infinity in \<^verbatim>\<open>N\<close> and in the density.
\<close>

theorem saturation_unchecked_counterexample:
  "saturation ex_spot_zero (Fin 1) = Fin 0 \<and>
   spot_tStart ex_spot_zero \<le> spot_t ex_spot_zero \<and> spot_t ex_spot_zero \<le> spot_tEnd ex_spot_zero \<and>
   mGridN (ex_FILLING ex_grids (Fin 2)) ! 0 ! 0 = Fin 3 \<and>
   mGridDen (ex_FILLING ex_grids (Fin 2)) ! 0 ! 0 = Fin 30 \<and>
   mGridN (filling ex_spot_zero ex_FILLING ex_grids (Fin 2)) ! 0 ! 0 = MInf \<and>
   mGridDen (filling ex_spot_zero ex_FILLING ex_grids (Fin 2)) ! 0 ! 0 = MInf"
proof -
  have v: "mGridN (ex_FILLING ex_grids (Fin 2)) ! 0 ! 0 = Fin 3"
    "mGridDen (ex_FILLING ex_grids (Fin 2)) ! 0 ! 0 = Fin 30"
    "mGridVol (ex_FILLING ex_grids (Fin 2)) ! 0 ! 0 = Fin (1 / 10)"
    "mGridBi (ex_FILLING ex_grids (Fin 2)) ! 0 ! 0 = Fin 4"
    unfolding ex_base by (simp_all add: ex_grids_def)
  have ins: "inside_spot ex_spot_zero (ex_FILLING ex_grids (Fin 2)) 0 0"
    using ex_spot_zero_facts(3) by (simp add: inside_spot_def)
  have cn: "cell_N (fmul (spot_f ex_spot_zero) (spot_dSat ex_spot_zero))
      (fmul (spot_f ex_spot_zero) (fMax ex_spot_zero)) (Fin 2) (ex_FILLING ex_grids (Fin 2)) 0 0 = MInf"
    unfolding cell_N_def v ex_spot_zero_facts(4,5,6) by (simp add: fsub_def signed_inf_def)
  note c = filling_cells [where B = ex_FILLING and s = ex_grids and dt = "Fin 2",
      OF ex_spot_zero_facts(1,2) ex_shaped ex_lengths]
  have "mGridN (filling ex_spot_zero ex_FILLING ex_grids (Fin 2)) ! 0 ! 0 = MInf"
    unfolding c using ins cn by simp
  moreover have "mGridDen (filling ex_spot_zero ex_FILLING ex_grids (Fin 2)) ! 0 ! 0 = MInf"
    unfolding c using ins cn v(3) by (simp add: signed_inf_def)
  moreover have "saturation ex_spot_zero (Fin 1) = Fin 0" by (simp add: ex_spot_zero_def)
  ultimately show ?thesis using v(1,2) ex_spot_zero_facts(1,2) by simp
qed


section \<open>One pass through the time loop\<close>

lemma bind_res_Inr: "bind_res r k = Inr y \<longleftrightarrow> (\<exists>x. r = Inr x \<and> k x = Inr y)"
  by (cases r) (simp_all add: bind_res_def)

lemma kp_at_Inr: "kp_at c i = Inr r \<Longrightarrow> 0 \<le> i \<and> i < int (length (kps c)) \<and> r = kps c ! nat i"
  by (auto simp: kp_at_def split: if_splits)

lemma advance_phase_Inr:
  assumes "advance_phase s = Inr s1"
  shows "\<exists>sp. l_f s = Some sp \<and>
     s1 = s\<lparr>l_f := Some (setTime sp (l_t s)),
            l_trace := l_trace s @ SetTime (l_t s) #
              (if l_t s < l_tNext s then [Advance (l_tNext s - l_t s)] else []),
            l_tFilling := l_tFilling s + 300,
            l_t := service_time s\<rparr>"
  using assms
  by (cases "l_f s") (auto simp: advance_phase_def emit_def service_time_def Let_def split: if_splits)

lemma service_kp_Inr:
  assumes "service_kp c s = Inr s2"
  shows "(l_tKp s \<le> l_t s \<longrightarrow> 0 \<le> l_iKp s \<and> l_iKp s < int (length (kps c))) \<and>
     s2 = s\<lparr>l_trace := l_trace s @
              (if l_tKp s \<le> l_t s then [SetEPot (snd (kps c ! nat (l_iKp s)))] else []),
            l_iKp := (if l_tKp s \<le> l_t s then l_iKp s + 1 else l_iKp s),
            l_tKp := (if l_tKp s \<le> l_t s
                      then (if l_iKp s + 1 \<ge> int (length (kps c)) then l_tStop s + 1
                            else fst (kps c ! nat (l_iKp s + 1)))
                      else l_tKp s)\<rparr>"
proof (cases "l_tKp s \<le> l_t s")
  case True
  with assms show ?thesis
    by (auto simp: service_kp_def bind_res_def kp_at_def emit_def Let_def
        split: if_splits sum.splits)
next
  case False
  with assms show ?thesis by (simp add: service_kp_def)
qed

lemma service_state_Inr:
  assumes "service_state c s = Inr s3"
  shows "(l_tWriteState s \<le> l_t s \<longrightarrow> l_samples s = None) \<and>
     s3 = s\<lparr>l_trace := l_trace s @
              (if l_tWriteState s \<le> l_t s then [WriteState (l_t s)] else []),
            l_tWriteState := (if l_tWriteState s \<le> l_t s then l_tWriteState s + g_dt c
                              else l_tWriteState s)\<rparr>"
  using assms by (auto simp: service_state_def emit_def split: if_splits)

lemma service_sample_Inr:
  assumes "service_sample s = Inr s4"
  shows "(l_tWriteSample s \<le> l_t s \<longrightarrow> l_samples s \<noteq> None) \<and>
     s4 = s\<lparr>l_trace := l_trace s @
              (if l_tWriteSample s \<le> l_t s then [WriteSample (l_t s)] else []),
            l_samples := (if l_tWriteSample s \<le> l_t s
                          then Some (SAMPLE_incr (the (l_samples s))) else l_samples s),
            l_tWriteSample := (if l_tWriteSample s \<le> l_t s
                          then smp_time (the (l_samples s)) + smp_period (the (l_samples s))
                          else l_tWriteSample s)\<rparr>"
  using assms
  by (auto simp: service_sample_def emit_def SAMPLE_incr_def split: if_splits option.splits)

lemma next_time_Min:
  "l_tNext (next_time s) = Min {l_tWriteSample s, l_tWriteState s, l_tKp s, l_tFilling s}"
  by (simp add: next_time_def Let_def min_def)

lemma next_time_fields:
  "l_t (next_time s) = l_t s" "l_tKp (next_time s) = l_tKp s"
  "l_tWriteState (next_time s) = l_tWriteState s" "l_tWriteSample (next_time s) = l_tWriteSample s"
  "l_tFilling (next_time s) = l_tFilling s" "l_trace (next_time s) = l_trace s"
  "l_iKp (next_time s) = l_iKp s" "l_tStop (next_time s) = l_tStop s"
  "l_samples (next_time s) = l_samples s" "l_f (next_time s) = l_f s"
  by (simp_all add: next_time_def Let_def)

lemma loop_body_phases:
  assumes "loop_body c s = Inr s'"
  obtains s1 s2 s3 s4 where "advance_phase s = Inr s1" "service_kp c s1 = Inr s2"
    "service_state c s2 = Inr s3" "service_sample s3 = Inr s4" "s' = next_time s4"
  using assms unfolding loop_body_def bind_res_Inr by auto

text \<open>The fields after a pass.\<close>

lemma loop_body_fields:
  assumes "loop_body c s = Inr s'"
  shows "l_t s' = service_time s"
    and "l_tStop s' = l_tStop s"
    and "l_tFilling s' = l_tFilling s + 300"
    and "l_tKp s' = (if l_tKp s \<le> service_time s
           then (if l_iKp s + 1 \<ge> int (length (kps c)) then l_tStop s + 1
                 else fst (kps c ! nat (l_iKp s + 1)))
           else l_tKp s)"
    and "l_iKp s' = (if l_tKp s \<le> service_time s then l_iKp s + 1 else l_iKp s)"
    and "l_tWriteState s' = (if l_tWriteState s \<le> service_time s then l_tWriteState s + g_dt c
           else l_tWriteState s)"
    and "l_tWriteSample s' = (if l_tWriteSample s \<le> service_time s
           then smp_time (the (l_samples s)) + smp_period (the (l_samples s))
           else l_tWriteSample s)"
    and "l_samples s' = (if l_tWriteSample s \<le> service_time s
           then Some (SAMPLE_incr (the (l_samples s))) else l_samples s)"
    and "l_tNext s' = Min {l_tWriteSample s', l_tWriteState s', l_tKp s', l_tFilling s'}"
    and "l_trace s' = l_trace s @ SetTime (l_t s) #
           (if l_t s < l_tNext s then [Advance (l_tNext s - l_t s)] else []) @
           (if l_tKp s \<le> service_time s then [SetEPot (snd (kps c ! nat (l_iKp s)))] else []) @
           (if l_tWriteState s \<le> service_time s then [WriteState (service_time s)] else []) @
           (if l_tWriteSample s \<le> service_time s then [WriteSample (service_time s)] else [])"
proof -
  from assms obtain s1 s2 s3 s4 where p: "advance_phase s = Inr s1" "service_kp c s1 = Inr s2"
    "service_state c s2 = Inr s3" "service_sample s3 = Inr s4" "s' = next_time s4"
    by (rule loop_body_phases)
  from advance_phase_Inr [OF p(1)] obtain sp where e1:
     "s1 = s\<lparr>l_f := Some (setTime sp (l_t s)),
            l_trace := l_trace s @ SetTime (l_t s) #
              (if l_t s < l_tNext s then [Advance (l_tNext s - l_t s)] else []),
            l_tFilling := l_tFilling s + 300,
            l_t := service_time s\<rparr>" by blast
  note e2 = service_kp_Inr [OF p(2), THEN conjunct2]
    and e3 = service_state_Inr [OF p(3), THEN conjunct2]
    and e4 = service_sample_Inr [OF p(4), THEN conjunct2]
  have f1: "l_t s1 = service_time s" "l_tStop s1 = l_tStop s" "l_tFilling s1 = l_tFilling s + 300"
    "l_tKp s1 = l_tKp s" "l_iKp s1 = l_iKp s" "l_tWriteState s1 = l_tWriteState s"
    "l_tWriteSample s1 = l_tWriteSample s" "l_samples s1 = l_samples s"
    "l_trace s1 = l_trace s @ SetTime (l_t s) #
              (if l_t s < l_tNext s then [Advance (l_tNext s - l_t s)] else [])"
    by (simp_all add: e1)
  have f2: "l_t s2 = service_time s" "l_tStop s2 = l_tStop s" "l_tFilling s2 = l_tFilling s + 300"
    "l_tKp s2 = (if l_tKp s \<le> service_time s
           then (if l_iKp s + 1 \<ge> int (length (kps c)) then l_tStop s + 1
                 else fst (kps c ! nat (l_iKp s + 1)))
           else l_tKp s)"
    "l_iKp s2 = (if l_tKp s \<le> service_time s then l_iKp s + 1 else l_iKp s)"
    "l_tWriteState s2 = l_tWriteState s"
    "l_tWriteSample s2 = l_tWriteSample s" "l_samples s2 = l_samples s"
    "l_trace s2 = l_trace s1 @
       (if l_tKp s \<le> service_time s then [SetEPot (snd (kps c ! nat (l_iKp s)))] else [])"
    by (subst e2, simp add: f1)+
  have f3: "l_t s3 = service_time s" "l_tStop s3 = l_tStop s" "l_tFilling s3 = l_tFilling s2"
    "l_tKp s3 = l_tKp s2" "l_iKp s3 = l_iKp s2"
    "l_tWriteState s3 = (if l_tWriteState s \<le> service_time s then l_tWriteState s + g_dt c
           else l_tWriteState s)"
    "l_tWriteSample s3 = l_tWriteSample s" "l_samples s3 = l_samples s"
    "l_trace s3 = l_trace s2 @
       (if l_tWriteState s \<le> service_time s then [WriteState (service_time s)] else [])"
    by (subst e3, simp add: f2)+
  have f4: "l_t s4 = service_time s" "l_tStop s4 = l_tStop s" "l_tFilling s4 = l_tFilling s2"
    "l_tKp s4 = l_tKp s2" "l_iKp s4 = l_iKp s2"
    "l_tWriteState s4 = l_tWriteState s3"
    "l_tWriteSample s4 = (if l_tWriteSample s \<le> service_time s
           then smp_time (the (l_samples s)) + smp_period (the (l_samples s))
           else l_tWriteSample s)"
    "l_samples s4 = (if l_tWriteSample s \<le> service_time s
           then Some (SAMPLE_incr (the (l_samples s))) else l_samples s)"
    "l_trace s4 = l_trace s3 @
       (if l_tWriteSample s \<le> service_time s then [WriteSample (service_time s)] else [])"
    by (subst e4, simp add: f3)+
  show "l_t s' = service_time s" by (simp add: p(5) next_time_fields f4)
  show "l_tStop s' = l_tStop s" by (simp add: p(5) next_time_fields f4)
  show "l_tFilling s' = l_tFilling s + 300" by (simp add: p(5) next_time_fields f4 f2)
  show "l_tKp s' = (if l_tKp s \<le> service_time s
           then (if l_iKp s + 1 \<ge> int (length (kps c)) then l_tStop s + 1
                 else fst (kps c ! nat (l_iKp s + 1)))
           else l_tKp s)"
    by (simp only: p(5) next_time_fields f4 f2)
  show "l_iKp s' = (if l_tKp s \<le> service_time s then l_iKp s + 1 else l_iKp s)"
    by (simp only: p(5) next_time_fields f4 f2)
  show "l_tWriteState s' = (if l_tWriteState s \<le> service_time s then l_tWriteState s + g_dt c
           else l_tWriteState s)"
    by (simp only: p(5) next_time_fields f4 f3)
  show "l_tWriteSample s' = (if l_tWriteSample s \<le> service_time s
           then smp_time (the (l_samples s)) + smp_period (the (l_samples s))
           else l_tWriteSample s)"
    by (simp only: p(5) next_time_fields f4)
  show "l_samples s' = (if l_tWriteSample s \<le> service_time s
           then Some (SAMPLE_incr (the (l_samples s))) else l_samples s)"
    by (simp only: p(5) next_time_fields f4)
  show "l_tNext s' = Min {l_tWriteSample s', l_tWriteState s', l_tKp s', l_tFilling s'}"
    unfolding p(5) next_time_fields by (rule next_time_Min)
  show "l_trace s' = l_trace s @ SetTime (l_t s) #
           (if l_t s < l_tNext s then [Advance (l_tNext s - l_t s)] else []) @
           (if l_tKp s \<le> service_time s then [SetEPot (snd (kps c ! nat (l_iKp s)))] else []) @
           (if l_tWriteState s \<le> service_time s then [WriteState (service_time s)] else []) @
           (if l_tWriteSample s \<le> service_time s then [WriteSample (service_time s)] else [])"
    by (simp only: p(5) next_time_fields f4 f3 f2 f1 append_assoc append_Cons)
qed

lemma loop_body_f:
  assumes "loop_body c s = Inr s'"
  shows "l_f s' = map_option (\<lambda>sp. setTime sp (l_t s)) (l_f s)"
proof -
  from assms obtain s1 s2 s3 s4 where p: "advance_phase s = Inr s1" "service_kp c s1 = Inr s2"
    "service_state c s2 = Inr s3" "service_sample s3 = Inr s4" "s' = next_time s4"
    by (rule loop_body_phases)
  from advance_phase_Inr [OF p(1)] obtain sp where e1: "l_f s = Some sp"
     "s1 = s\<lparr>l_f := Some (setTime sp (l_t s)),
            l_trace := l_trace s @ SetTime (l_t s) #
              (if l_t s < l_tNext s then [Advance (l_tNext s - l_t s)] else []),
            l_tFilling := l_tFilling s + 300,
            l_t := service_time s\<rparr>" by blast
  have "l_f s1 = Some (setTime sp (l_t s))" by (simp add: e1(2))
  then have "l_f s2 = Some (setTime sp (l_t s))"
    by (subst service_kp_Inr [OF p(2), THEN conjunct2]) simp
  then have "l_f s3 = Some (setTime sp (l_t s))"
    by (subst service_state_Inr [OF p(3), THEN conjunct2]) simp
  then have "l_f s4 = Some (setTime sp (l_t s))"
    by (subst service_sample_Inr [OF p(4), THEN conjunct2]) simp
  then show ?thesis by (simp add: p(5) next_time_fields e1(1))
qed

lemma new_events_pass:
  assumes "loop_body c s = Inr s'"
  shows "new_events s s' = SetTime (l_t s) #
           (if l_t s < l_tNext s then [Advance (l_tNext s - l_t s)] else []) @
           (if l_tKp s \<le> service_time s then [SetEPot (snd (kps c ! nat (l_iKp s)))] else []) @
           (if l_tWriteState s \<le> service_time s then [WriteState (service_time s)] else []) @
           (if l_tWriteSample s \<le> service_time s then [WriteSample (service_time s)] else [])"
  unfolding new_events_def loop_body_fields(10) [OF assms] by simp

lemma advances_pass:
  assumes "loop_body c s = Inr s'"
  shows "advances (new_events s s') = (if l_t s < l_tNext s then [l_tNext s - l_t s] else [])"
  unfolding new_events_pass [OF assms] by simp

lemma spot_timer_every_pass:
  "loop_body c s = Inr s' \<Longrightarrow> l_tFilling s' = l_tFilling s + 300"
  by (rule loop_body_fields(3))

lemma advance_phase_ok: "l_f s \<noteq> None \<Longrightarrow> \<exists>s1. advance_phase s = Inr s1"
  by (cases "l_f s") (simp_all add: advance_phase_def Let_def)

lemma advance_phase_None: "l_f s = None \<Longrightarrow> advance_phase s = Inl UninitialisedPointer"
  by (simp add: advance_phase_def)

lemma service_kp_ok:
  assumes "l_tKp s \<le> l_t s \<longrightarrow> 0 \<le> l_iKp s \<and> l_iKp s < int (length (kps c))"
  shows "\<exists>s2. service_kp c s = Inr s2"
proof (cases "l_tKp s \<le> l_t s")
  case True
  with assms have "kp_at c (l_iKp s) = Inr (kps c ! nat (l_iKp s))" by (simp add: kp_at_def)
  with True assms show ?thesis
    by (auto simp: service_kp_def bind_res_def Let_def kp_at_def emit_def)
next
  case False
  then show ?thesis by (simp add: service_kp_def)
qed

lemma service_state_ok:
  assumes "l_tWriteState s \<le> l_t s \<longrightarrow> l_samples s = None"
  shows "\<exists>s3. service_state c s = Inr s3"
  using assms by (simp add: service_state_def)

lemma service_sample_ok:
  assumes "l_tWriteSample s \<le> l_t s \<longrightarrow> l_samples s \<noteq> None"
  shows "\<exists>s4. service_sample s = Inr s4"
  using assms by (cases "l_samples s") (simp_all add: service_sample_def)

lemma loop_body_ok:
  assumes f: "l_f s \<noteq> None"
    and k: "l_tKp s \<le> service_time s \<longrightarrow> 0 \<le> l_iKp s \<and> l_iKp s < int (length (kps c))"
    and w: "l_tWriteState s \<le> service_time s \<longrightarrow> l_samples s = None"
    and m: "l_tWriteSample s \<le> service_time s \<longrightarrow> l_samples s \<noteq> None"
  shows "\<exists>s'. loop_body c s = Inr s'"
proof -
  from advance_phase_ok [OF f] obtain s1 where p1: "advance_phase s = Inr s1" ..
  from advance_phase_Inr [OF p1] obtain sp where e1:
     "s1 = s\<lparr>l_f := Some (setTime sp (l_t s)),
            l_trace := l_trace s @ SetTime (l_t s) #
              (if l_t s < l_tNext s then [Advance (l_tNext s - l_t s)] else []),
            l_tFilling := l_tFilling s + 300,
            l_t := service_time s\<rparr>" by blast
  have f1: "l_t s1 = service_time s" "l_tKp s1 = l_tKp s" "l_iKp s1 = l_iKp s"
    "l_tWriteState s1 = l_tWriteState s" "l_tWriteSample s1 = l_tWriteSample s"
    "l_samples s1 = l_samples s"
    by (simp_all add: e1)
  have "l_tKp s1 \<le> l_t s1 \<longrightarrow> 0 \<le> l_iKp s1 \<and> l_iKp s1 < int (length (kps c))"
    using k by (simp add: f1)
  from service_kp_ok [OF this] obtain s2 where p2: "service_kp c s1 = Inr s2" ..
  note e2 = service_kp_Inr [OF p2, THEN conjunct2]
  have f2: "l_t s2 = service_time s" "l_tWriteState s2 = l_tWriteState s"
    "l_tWriteSample s2 = l_tWriteSample s" "l_samples s2 = l_samples s"
    by (subst e2, simp add: f1)+
  have "l_tWriteState s2 \<le> l_t s2 \<longrightarrow> l_samples s2 = None"
    using w by (simp add: f2)
  from service_state_ok [OF this] obtain s3 where p3: "service_state c s2 = Inr s3" ..
  note e3 = service_state_Inr [OF p3, THEN conjunct2]
  have f3: "l_t s3 = service_time s" "l_tWriteSample s3 = l_tWriteSample s"
    "l_samples s3 = l_samples s"
    by (subst e3, simp add: f2)+
  have "l_tWriteSample s3 \<le> l_t s3 \<longrightarrow> l_samples s3 \<noteq> None"
    using m by (simp add: f3)
  from service_sample_ok [OF this] obtain s4 where p4: "service_sample s3 = Inr s4" ..
  show ?thesis by (simp add: loop_body_def bind_res_def p1 p2 p3 p4)
qed

lemma loop_body_None: "l_f s = None \<Longrightarrow> loop_body c s = Inl UninitialisedPointer"
  by (simp add: loop_body_def advance_phase_None bind_res_def)

lemma loop_body_Some: "loop_body c s = Inr s' \<Longrightarrow> l_f s \<noteq> None"
  by (cases "l_f s") (simp_all add: loop_body_None)

lemma make_filling_None:
  "make_filling c tStart = Inr f \<Longrightarrow> (f = None \<longleftrightarrow> g_filling c \<noteq> 1)"
  by (auto simp: make_filling_def Let_def split: if_splits option.splits)

lemma loop_start_fields:
  "l_tStop (loop_start c tStart tStop tOut r iKp f) = tStop"
  "l_t (loop_start c tStart tStop tOut r iKp f) = tStart"
  "l_tNext (loop_start c tStart tStop tOut r iKp f) = tStart"
  "l_tFilling (loop_start c tStart tStop tOut r iKp f) = tStart"
  "l_tKp (loop_start c tStart tStop tOut r iKp f) = fst r"
  "l_iKp (loop_start c tStart tStop tOut r iKp f) = iKp"
  "l_f (loop_start c tStart tStop tOut r iKp f) = f"
  "l_samples (loop_start c tStart tStop tOut r iKp f) =
     (if length (g_samplesIFile c) > 0
      then Some \<lparr>smp_time = tOut, smp_period = g_dt c\<rparr> else None)"
  "l_tWriteSample (loop_start c tStart tStop tOut r iKp f) =
     (if length (g_samplesIFile c) > 0 then tOut else tStop + 1)"
  "l_tWriteState (loop_start c tStart tStop tOut r iKp f) =
     (if length (g_samplesIFile c) > 0 then tStop + 1 else tOut)"
  by (simp_all add: loop_start_def Let_def)

lemma main_setup_Inr:
  assumes "main_setup c = Inr s0"
  obtains tStart tStop tOut r f where "parseArgs_checks c = Inr ()"
    "run_times c = Inr (tStart, tStop, tOut)"
    "kp_at c (kps_find c tStart) = Inr r" "make_filling c tStart = Inr f"
    "s0 = loop_start c tStart tStop tOut r (kps_find c tStart) f"
  using assms unfolding main_setup_def by (auto simp: bind_res_Inr split: prod.splits)

lemma main_setup_f:
  assumes "main_setup c = Inr s0"
  shows "(l_f s0 = None \<longleftrightarrow> g_filling c \<noteq> 1) \<and> l_t s0 = l_tNext s0"
proof -
  from assms obtain tStart tStop tOut r f where "make_filling c tStart = Inr f"
    "s0 = loop_start c tStart tStop tOut r (kps_find c tStart) f"
    by (rule main_setup_Inr)
  then show ?thesis using make_filling_None by (auto simp: loop_start_fields)
qed


section \<open>Runs that start on time\<close>

lemma on_time_service: "on_time c s \<Longrightarrow> service_time s = l_tNext s"
  by (auto simp: on_time_def service_time_def)

lemma on_time_pass:
  assumes o: "on_time c s" and g: "l_tNext s \<le> l_tStop s"
    and dt: "0 \<le> g_dt c" and so: "sorted (map fst (kps c))"
  shows "\<exists>s'. loop_body c s = Inr s' \<and> on_time c s'"
proof -
  note st = on_time_service [OF o]
  from o have le: "l_t s \<le> l_tNext s" "l_tNext s \<le> l_tKp s" "l_tNext s \<le> l_tWriteState s"
    "l_tNext s \<le> l_tWriteSample s" "l_tNext s \<le> l_tFilling s" and f: "l_f s \<noteq> None"
    and ik: "0 \<le> l_iKp s"
    and kp: "if l_iKp s < int (length (kps c)) then l_tKp s = fst (kps c ! nat (l_iKp s))
       else l_tKp s = l_tStop s + 1"
    and sm: "case l_samples s of
         None \<Rightarrow> l_tWriteSample s = l_tStop s + 1
       | Some sm \<Rightarrow> l_tWriteState s = l_tStop s + 1 \<and> l_tWriteSample s = smp_time sm \<and>
           0 \<le> smp_period sm"
    by (simp_all add: on_time_def)
  have k: "l_tKp s \<le> service_time s \<longrightarrow> 0 \<le> l_iKp s \<and> l_iKp s < int (length (kps c))"
    using kp ik le(2) g unfolding st by (auto split: if_splits)
  have w: "l_tWriteState s \<le> service_time s \<longrightarrow> l_samples s = None"
    using sm le(3) g unfolding st by (auto split: option.splits)
  have m: "l_tWriteSample s \<le> service_time s \<longrightarrow> l_samples s \<noteq> None"
    using sm le(4) g unfolding st by (auto split: option.splits)
  from loop_body_ok [OF f k w m] obtain s' where b: "loop_body c s = Inr s'" ..
  note fl = loop_body_fields [OF b, unfolded st]
  have t': "l_t s' = l_tNext s" by (rule fl(1))
  have fi: "l_tNext s \<le> l_tFilling s'" using le(5) by (simp add: fl(3))
  have kp': "l_tNext s \<le> l_tKp s'"
  proof (cases "l_tKp s \<le> l_tNext s")
    case True
    with le(2) have eq: "l_tKp s = l_tNext s" by simp
    from True k have ix: "l_iKp s < int (length (kps c))" by (simp add: st)
    show ?thesis
    proof (cases "l_iKp s + 1 \<ge> int (length (kps c))")
      case True
      then show ?thesis using \<open>l_tKp s \<le> l_tNext s\<close> g by (simp add: fl(4))
    next
      case False
      then have "nat (l_iKp s) \<le> nat (l_iKp s + 1)" "nat (l_iKp s + 1) < length (map fst (kps c))"
        using ik by simp_all
      with so have "map fst (kps c) ! nat (l_iKp s) \<le> map fst (kps c) ! nat (l_iKp s + 1)"
        by (rule sorted_nth_mono)
      then have "fst (kps c ! nat (l_iKp s)) \<le> fst (kps c ! nat (l_iKp s + 1))"
        using False ik by simp
      then show ?thesis using kp ix eq False \<open>l_tKp s \<le> l_tNext s\<close> by (simp add: fl(4))
    qed
  next
    case False
    then show ?thesis using le(2) by (simp add: fl(4))
  qed
  have ws': "l_tNext s \<le> l_tWriteState s'" using le(3) dt by (simp add: fl(6))
  have wm': "l_tNext s \<le> l_tWriteSample s'"
    using le(4) sm m by (cases "l_samples s") (auto simp: fl(7) st)
  have nx: "l_tNext s' = min (l_tWriteSample s') (min (l_tWriteState s') (min (l_tKp s') (l_tFilling s')))"
    by (simp add: fl(9))
  have sm': "case l_samples s' of
         None \<Rightarrow> l_tWriteSample s' = l_tStop s' + 1
       | Some sm \<Rightarrow> l_tWriteState s' = l_tStop s' + 1 \<and> l_tWriteSample s' = smp_time sm \<and>
           0 \<le> smp_period sm"
    using sm w m g le(3,4)
    by (cases "l_samples s") (auto simp: fl(2) fl(6) fl(7) fl(8) st SAMPLE_incr_def)
  have ik': "0 \<le> l_iKp s'" using ik by (simp add: fl(5))
  have kps': "if l_iKp s' < int (length (kps c)) then l_tKp s' = fst (kps c ! nat (l_iKp s'))
       else l_tKp s' = l_tStop s' + 1"
    using kp by (auto simp: fl(2) fl(4) fl(5))
  have f': "l_f s' \<noteq> None" using f by (simp add: loop_body_f [OF b])
  have n1: "l_tNext s \<le> l_tNext s'" using fi kp' ws' wm' by (simp add: nx)
  have n2: "l_tNext s' \<le> l_tKp s'" "l_tNext s' \<le> l_tWriteState s'"
    "l_tNext s' \<le> l_tWriteSample s'" "l_tNext s' \<le> l_tFilling s'"
    by (simp_all add: nx min_le_iff_disj)
  have "on_time c s'"
    unfolding on_time_def t' using n1 n2 sm' ik' kps' f' by blast
  with b show ?thesis by blast
qed

lemma on_time_setup:
  assumes s0: "main_setup c = Inr s0" and dt: "0 \<le> g_dt c" and fl: "g_filling c = 1"
    and le: "l_t s0 \<le> l_tKp s0" "l_t s0 \<le> l_tWriteState s0" "l_t s0 \<le> l_tWriteSample s0"
  shows "on_time c s0"
proof -
  from s0 obtain tStart tStop tOut r f where k: "kp_at c (kps_find c tStart) = Inr r"
    and e: "s0 = loop_start c tStart tStop tOut r (kps_find c tStart) f"
    by (rule main_setup_Inr)
  note kk = kp_at_Inr [OF k]
  have f: "l_f s0 \<noteq> None" using main_setup_f [OF s0] fl by simp
  have t: "l_tNext s0 = l_t s0" "l_tFilling s0 = l_t s0" by (simp_all add: e loop_start_fields)
  have sm: "case l_samples s0 of
         None \<Rightarrow> l_tWriteSample s0 = l_tStop s0 + 1
       | Some sm \<Rightarrow> l_tWriteState s0 = l_tStop s0 + 1 \<and> l_tWriteSample s0 = smp_time sm \<and>
           0 \<le> smp_period sm"
    using dt by (simp add: e loop_start_fields)
  have ik: "0 \<le> l_iKp s0" "l_iKp s0 < int (length (kps c))"
    "l_tKp s0 = fst (kps c ! nat (l_iKp s0))"
    using kk by (simp_all add: e loop_start_fields)
  show ?thesis unfolding on_time_def t using le f sm ik by simp
qed

lemma on_time_loop_head:
  assumes "loop_head c s" and "on_time c s0" "main_setup c = Inr s0"
    and "0 \<le> g_dt c" "sorted (map fst (kps c))"
  shows "on_time c s"
  using assms
proof (induction rule: loop_head.induct)
  case (start s)
  then show ?case by simp
next
  case (pass s s')
  then have "on_time c s" by simp
  from on_time_pass [OF this pass.hyps(2) pass.prems(3,4)] pass.hyps(3)
  show ?case by auto
qed


section \<open>The example runs\<close>

lemma ex_setup: "main_setup ex_config = Inr ex_start"
  by (simp add: main_setup_def parseArgs_checks_def run_times_def make_filling_def kp_at_def
      bind_res_def ex_config_def ex_start_def setSpot_def SPOTFILLING_new_def ex_spot_def
      loop_start_def)

lemma ex_start_pass: "loop_body ex_config ex_start = Inr ex_start'"
  by (simp add: loop_body_def advance_phase_def service_kp_def service_state_def
      service_sample_def next_time_def bind_res_def emit_def setTime_def kp_at_def
      ex_start_def ex_start'_def ex_config_def Let_def)

lemma ex_start'_head: "loop_head ex_config ex_start'"
  by (rule loop_head.pass [OF loop_head.start [OF ex_setup] _ ex_start_pass])
    (simp add: ex_start_def)

lemma ex_sample_setup: "main_setup ex_sample_config = Inr ex_sample_start"
  by (simp add: main_setup_def parseArgs_checks_def run_times_def make_filling_def kp_at_def
      bind_res_def ex_sample_config_def ex_config_def ex_sample_start_def setSpot_def
      SPOTFILLING_new_def ex_spot_def loop_start_def)

lemma ex_sample_pass: "loop_body ex_sample_config ex_sample_start = Inr ex_tick"
  by (simp add: loop_body_def advance_phase_def service_kp_def service_state_def
      service_sample_def next_time_def bind_res_def emit_def setTime_def SAMPLE_incr_def
      kp_at_def ex_sample_config_def ex_config_def ex_sample_start_def ex_tick_def Let_def)

lemma ex_tick_head: "loop_head ex_sample_config ex_tick"
  by (rule loop_head.pass [OF loop_head.start [OF ex_sample_setup] _ ex_sample_pass])
    (simp add: ex_sample_start_def)

lemma ex_tick_pass: "loop_body ex_sample_config ex_tick = Inr ex_tick'"
  by (simp add: loop_body_def advance_phase_def service_kp_def service_state_def
      service_sample_def next_time_def bind_res_def emit_def setTime_def SAMPLE_incr_def
      ex_tick_def ex_tick'_def Let_def)

lemma ex_tick'_pass: "loop_body ex_sample_config ex_tick' = Inr ex_tick''"
  by (simp add: loop_body_def advance_phase_def service_kp_def service_state_def
      service_sample_def next_time_def bind_res_def emit_def setTime_def SAMPLE_incr_def
      ex_tick'_def ex_tick''_def Let_def)

text \<open>
  The spot timer in the run with samples: the pass from \<open>ex_tick\<close> stops at 120, where
  the timer, at 300, is not due, and moves the timer to 600.
\<close>

lemma spot_timer_not_due:
  "loop_head ex_sample_config ex_tick \<and> l_tNext ex_tick \<le> l_tStop ex_tick \<and>
   loop_body ex_sample_config ex_tick = Inr ex_tick' \<and>
   l_tFilling ex_tick = 300 \<and> l_t ex_tick' = 120 \<and> l_tFilling ex_tick' = 600"
  using ex_tick_head ex_tick_pass by (simp add: ex_tick_def ex_tick'_def)

lemma plain_setup: "main_setup plain_config = Inr plain_start"
  by (simp add: main_setup_def parseArgs_checks_def run_times_def make_filling_def kp_at_def
      bind_res_def plain_config_def ex_config_def plain_start_def ex_start_def loop_start_def)

lemma early_setup: "main_setup early_config = Inr early_start"
  by (simp add: main_setup_def parseArgs_checks_def run_times_def make_filling_def kp_at_def
      bind_res_def early_config_def ex_config_def early_start_def ex_start_def setSpot_def
      SPOTFILLING_new_def ex_spot_def loop_start_def)

lemma early_pass: "loop_body early_config early_start = Inr early_next"
  by (simp add: loop_body_def advance_phase_def service_kp_def service_state_def
      service_sample_def next_time_def bind_res_def emit_def setTime_def kp_at_def
      early_start_def early_next_def early_config_def ex_start_def ex_start'_def ex_config_def Let_def)

lemma catchup_setup: "main_setup catchup_config = Inr catchup_start"
  by (simp add: main_setup_def parseArgs_checks_def run_times_def make_filling_def kp_at_def
      bind_res_def catchup_config_def ex_config_def catchup_start_def ex_start_def setSpot_def
      SPOTFILLING_new_def ex_spot_def loop_start_def)

lemma catchup_pass: "loop_body catchup_config catchup_start = Inr catchup_next"
  by (simp add: loop_body_def advance_phase_def service_kp_def service_state_def
      service_sample_def next_time_def bind_res_def emit_def setTime_def kp_at_def
      catchup_start_def catchup_next_def catchup_config_def ex_start_def ex_start'_def ex_config_def Let_def)


section \<open>The next time to stop at\<close>

text \<open>
  C1: every pass ends by setting the next time to stop at to the least of the four
  times (samples, state, Kp, spot timer); a pass that finds the next time strictly
  after the current time advances the model by exactly the difference and sets the
  current time to the next time, and otherwise does not advance. So the pass after
  one that ended with its least time after the current time stops exactly there.
\<close>

theorem scheduler_minimality:
  assumes "loop_body c s = Inr s'"
  shows "(if l_t s < l_tNext s
          then l_t s' = l_tNext s \<and> advances (new_events s s') = [l_tNext s - l_t s]
          else l_t s' = l_t s \<and> advances (new_events s s') = []) \<and>
         l_tNext s' = Min {l_tWriteSample s', l_tWriteState s', l_tKp s', l_tFilling s'} \<and>
         (\<forall>s''. loop_body c s' = Inr s'' \<longrightarrow>
            l_t s' < Min {l_tWriteSample s', l_tWriteState s', l_tKp s', l_tFilling s'} \<longrightarrow>
            l_t s'' = Min {l_tWriteSample s', l_tWriteState s', l_tKp s', l_tFilling s'} \<and>
            advances (new_events s' s'') =
              [Min {l_tWriteSample s', l_tWriteState s', l_tKp s', l_tFilling s'} - l_t s'])"
proof (intro conjI allI impI)
  show "if l_t s < l_tNext s
        then l_t s' = l_tNext s \<and> advances (new_events s s') = [l_tNext s - l_t s]
        else l_t s' = l_t s \<and> advances (new_events s s') = []"
    by (simp add: loop_body_fields(1) [OF assms] advances_pass [OF assms] service_time_def)
  show m: "l_tNext s' = Min {l_tWriteSample s', l_tWriteState s', l_tKp s', l_tFilling s'}"
    by (rule loop_body_fields(9) [OF assms])
  fix s''
  assume b: "loop_body c s' = Inr s''"
    and l: "l_t s' < Min {l_tWriteSample s', l_tWriteState s', l_tKp s', l_tFilling s'}"
  from l have l': "l_t s' < l_tNext s'" by (simp only: m)
  show "l_t s'' = Min {l_tWriteSample s', l_tWriteState s', l_tKp s', l_tFilling s'}"
    using l' by (simp add: loop_body_fields(1) [OF b] service_time_def m [symmetric])
  show "advances (new_events s' s'') =
      [Min {l_tWriteSample s', l_tWriteState s', l_tKp s', l_tFilling s'} - l_t s']"
    using l' by (simp add: advances_pass [OF b] m [symmetric])
qed

theorem scheduler_minimality_witness:
  "loop_body ex_sample_config ex_tick = Inr ex_tick' \<and> l_t ex_tick < l_tNext ex_tick \<and>
   l_tNext ex_tick = 120 \<and> l_t ex_tick' = 120 \<and>
   advances (new_events ex_tick ex_tick') = [120] \<and>
   loop_head ex_sample_config ex_tick \<and>
   new_events ex_tick ex_tick' = [SetTime 0, Advance 120, WriteSample 120] \<and>
   l_tNext ex_tick' = 240 \<and>
   loop_body ex_sample_config ex_tick' = Inr ex_tick'' \<and>
   l_t ex_tick' < Min {l_tWriteSample ex_tick', l_tWriteState ex_tick', l_tKp ex_tick',
     l_tFilling ex_tick'} \<and>
   l_t ex_tick'' = 240 \<and> advances (new_events ex_tick' ex_tick'') = [120] \<and>
   loop_body ex_config ex_start = Inr ex_start' \<and> \<not> l_t ex_start < l_tNext ex_start \<and>
   l_t ex_start' = l_t ex_start \<and> advances (new_events ex_start ex_start') = [] \<and>
   l_tNext ex_start' = 1300"
proof -
  have a: "l_t ex_tick < l_tNext ex_tick" "l_tNext ex_tick = 120"
    "l_t ex_tick' < Min {l_tWriteSample ex_tick', l_tWriteState ex_tick', l_tKp ex_tick',
       l_tFilling ex_tick'}"
    "Min {l_tWriteSample ex_tick', l_tWriteState ex_tick', l_tKp ex_tick',
       l_tFilling ex_tick'} = 240" "l_t ex_tick' = 120" "l_t ex_tick = 0"
    by (simp_all add: ex_tick_def ex_tick'_def)
  have b: "\<not> l_t ex_start < l_tNext ex_start"
    "Min {l_tWriteSample ex_start', l_tWriteState ex_start', l_tKp ex_start',
       l_tFilling ex_start'} = 1300"
    by (simp_all add: ex_start_def ex_start'_def)
  have e: "new_events ex_tick ex_tick' = [SetTime 0, Advance 120, WriteSample 120]"
    by (simp add: new_events_def ex_tick_def ex_tick'_def)
  note t1 = scheduler_minimality [OF ex_tick_pass]
  note t2 = scheduler_minimality [OF ex_start_pass]
  from t1 a have 1: "l_t ex_tick' = 120" "advances (new_events ex_tick ex_tick') = [120]"
    "l_tNext ex_tick' = 240"
    by simp_all
  from t1 [THEN conjunct2, THEN conjunct2, rule_format, OF ex_tick'_pass a(3)] a(4,5)
  have 2: "l_t ex_tick'' = 240" "advances (new_events ex_tick' ex_tick'') = [120]"
    by simp_all
  from t2 b have 3: "l_t ex_start' = l_t ex_start" "advances (new_events ex_start ex_start') = []"
    "l_tNext ex_start' = 1300"
    by simp_all
  from 1 2 3 a b e ex_tick_pass ex_tick'_pass ex_start_pass ex_tick_head
  show ?thesis by simp
qed


section \<open>The streams\<close>

text \<open>
  C8, as amended: a pass serves each of the Kp, state and sample streams exactly when
  the time of the stream is at or before the current time after the advance, not only
  when the two are equal. A served stream has its call made and its time recomputed:
  the Kp stream takes the time of the next record, or the end of the run plus one
  second when no record is left; the state stream adds the period of the output; the
  sample stream adds the period of the samples. The time of a stream that is not
  served is unchanged. On a pass where the spot timer equals the current time, 300
  seconds are added to it.
\<close>

theorem stream_service:
  assumes "loop_body c s = Inr s'"
  shows "new_events s s' = SetTime (l_t s) #
           (if l_t s < l_tNext s then [Advance (l_tNext s - l_t s)] else []) @
           (if l_tKp s \<le> l_t s' then [SetEPot (snd (kps c ! nat (l_iKp s)))] else []) @
           (if l_tWriteState s \<le> l_t s' then [WriteState (l_t s')] else []) @
           (if l_tWriteSample s \<le> l_t s' then [WriteSample (l_t s')] else []) \<and>
         l_tKp s' = (if l_tKp s \<le> l_t s'
           then (if int (length (kps c)) \<le> l_iKp s + 1 then l_tStop s + 1
                 else fst (kps c ! nat (l_iKp s + 1)))
           else l_tKp s) \<and>
         l_tStop s' = l_tStop s \<and>
         l_tWriteState s' = (if l_tWriteState s \<le> l_t s' then l_tWriteState s + g_dt c
           else l_tWriteState s) \<and>
         (\<forall>sm. l_samples s = Some sm \<longrightarrow> l_tWriteSample s = smp_time sm \<longrightarrow>
            l_tWriteSample s' = (if l_tWriteSample s \<le> l_t s'
              then l_tWriteSample s + smp_period sm else l_tWriteSample s)) \<and>
         (l_samples s = None \<longrightarrow> l_tWriteSample s' = l_tWriteSample s) \<and>
         (l_tFilling s = l_t s' \<longrightarrow> l_tFilling s' = l_tFilling s + 300)"
proof -
  note fl = loop_body_fields [OF assms]
  from assms obtain s1 s2 s3 s4 where p: "advance_phase s = Inr s1" "service_kp c s1 = Inr s2"
    "service_state c s2 = Inr s3" "service_sample s3 = Inr s4"
    by (rule loop_body_phases)
  have none: "l_samples s = None \<Longrightarrow> \<not> l_tWriteSample s \<le> service_time s"
  proof
    assume n: "l_samples s = None" and d: "l_tWriteSample s \<le> service_time s"
    from advance_phase_Inr [OF p(1)] obtain sp where e1:
     "s1 = s\<lparr>l_f := Some (setTime sp (l_t s)),
            l_trace := l_trace s @ SetTime (l_t s) #
              (if l_t s < l_tNext s then [Advance (l_tNext s - l_t s)] else []),
            l_tFilling := l_tFilling s + 300,
            l_t := service_time s\<rparr>" by blast
    have f1: "l_t s1 = service_time s" "l_tWriteSample s1 = l_tWriteSample s"
      "l_samples s1 = l_samples s"
      by (simp_all add: e1)
    have f2: "l_t s2 = service_time s" "l_tWriteSample s2 = l_tWriteSample s"
      "l_samples s2 = l_samples s"
      by (subst service_kp_Inr [OF p(2), THEN conjunct2], simp add: f1)+
    have f3: "l_t s3 = service_time s" "l_tWriteSample s3 = l_tWriteSample s"
      "l_samples s3 = l_samples s"
      by (subst service_state_Inr [OF p(3), THEN conjunct2], simp add: f2)+
    from service_sample_Inr [OF p(4), THEN conjunct1] d n show False by (simp add: f3)
  qed
  show ?thesis
  proof (intro conjI allI impI)
    show "new_events s s' = SetTime (l_t s) #
           (if l_t s < l_tNext s then [Advance (l_tNext s - l_t s)] else []) @
           (if l_tKp s \<le> l_t s' then [SetEPot (snd (kps c ! nat (l_iKp s)))] else []) @
           (if l_tWriteState s \<le> l_t s' then [WriteState (l_t s')] else []) @
           (if l_tWriteSample s \<le> l_t s' then [WriteSample (l_t s')] else [])"
      unfolding fl(1) by (rule new_events_pass [OF assms])
    show "l_tKp s' = (if l_tKp s \<le> l_t s'
           then (if int (length (kps c)) \<le> l_iKp s + 1 then l_tStop s + 1
                 else fst (kps c ! nat (l_iKp s + 1)))
           else l_tKp s)"
      unfolding fl(1) by (rule fl(4))
    show "l_tStop s' = l_tStop s" by (rule fl(2))
    show "l_tWriteState s' = (if l_tWriteState s \<le> l_t s' then l_tWriteState s + g_dt c
           else l_tWriteState s)"
      unfolding fl(1) by (rule fl(6))
    show "l_tFilling s' = l_tFilling s + 300" by (rule fl(3))
  next
    fix sm
    assume "l_samples s = Some sm" "l_tWriteSample s = smp_time sm"
    then show "l_tWriteSample s' = (if l_tWriteSample s \<le> l_t s'
              then l_tWriteSample s + smp_period sm else l_tWriteSample s)"
      unfolding fl(1) by (simp add: fl(7))
  next
    assume "l_samples s = None"
    from none [OF this] show "l_tWriteSample s' = l_tWriteSample s" by (simp add: fl(7))
  qed
qed

theorem stream_service_witness:
  "loop_body ex_config ex_start = Inr ex_start' \<and>
   l_tKp ex_start \<le> l_t ex_start' \<and> l_tKp ex_start' = 11800 \<and>
   l_tWriteState ex_start \<le> l_t ex_start' \<and> l_tWriteState ex_start' = 1000 + 900 \<and>
   l_samples ex_start = None \<and> l_tWriteSample ex_start' = l_tWriteSample ex_start \<and>
   l_tFilling ex_start = l_t ex_start' \<and> l_tFilling ex_start' = 1000 + 300 \<and>
   new_events ex_start ex_start' = [SetTime 1000, SetEPot (Fin 2), WriteState 1000] \<and>
   loop_body ex_sample_config ex_tick = Inr ex_tick' \<and>
   l_samples ex_tick = Some \<lparr>smp_time = 120, smp_period = 120\<rparr> \<and>
   l_tWriteSample ex_tick \<le> l_t ex_tick' \<and> l_tWriteSample ex_tick' = 120 + 120 \<and>
   \<not> l_tKp ex_tick \<le> l_t ex_tick' \<and> l_tKp ex_tick' = l_tKp ex_tick \<and>
   new_events ex_tick ex_tick' = [SetTime 0, Advance 120, WriteSample 120]"
  using stream_service [OF ex_start_pass] stream_service [OF ex_tick_pass]
    ex_start_pass ex_tick_pass
  by (simp add: ex_start_def ex_start'_def ex_tick_def ex_tick'_def ex_config_def)

text \<open>
  C8 as stated fails: in the run of the example with the output requested from 500,
  before the start of the run at 1000, the first pass serves the state stream and
  moves its time from 500 to 1400 although 500 is not the current time 1000.
\<close>

theorem stream_service_counterexample:
  "main_setup early_config = Inr early_start \<and> loop_body early_config early_start = Inr early_next \<and>
   l_tWriteState early_start = 500 \<and> l_t early_next = 1000 \<and>
   l_tWriteState early_start \<noteq> l_t early_next \<and> l_tWriteState early_next = 1400 \<and>
   new_events early_start early_next = [SetTime 1000, SetEPot (Fin 2), WriteState 1000]"
  using early_setup early_pass
  by (simp add: new_events_def early_start_def early_next_def ex_start_def ex_start'_def)

text \<open>
  C9, as amended: in a run that starts with no stream due before the start time, with
  a period of the output that is not negative and Kp records in the order of their
  times, and with the filling object configured, every pass of the loop finds each
  stream either due exactly at the current time or not yet due: no stream is served
  late, and the pass fails in none of its calls.
\<close>

theorem never_late:
  assumes "0 \<le> g_dt c" and "sorted (map fst (kps c))" and "g_filling c = 1"
    and "main_setup c = Inr s0"
    and "l_t s0 \<le> l_tKp s0" and "l_t s0 \<le> l_tWriteState s0" and "l_t s0 \<le> l_tWriteSample s0"
    and "loop_head c s" and "l_tNext s \<le> l_tStop s"
  shows "\<not> serves_late s \<and> service_time s \<le> l_tKp s \<and>
    service_time s \<le> l_tWriteState s \<and> service_time s \<le> l_tWriteSample s \<and>
    (\<exists>s'. loop_body c s = Inr s' \<and> l_t s' = service_time s)"
proof -
  have "on_time c s0" using assms(4,1,3,5,6,7) by (rule on_time_setup)
  with assms(8) have o: "on_time c s" using assms(4,1,2) by (rule on_time_loop_head)
  note st = on_time_service [OF o]
  from o have le: "l_tNext s \<le> l_tKp s" "l_tNext s \<le> l_tWriteState s"
    "l_tNext s \<le> l_tWriteSample s"
    by (simp_all add: on_time_def)
  from on_time_pass [OF o assms(9,1,2)] obtain s' where b: "loop_body c s = Inr s'" by blast
  then have "l_t s' = service_time s" by (rule loop_body_fields(1))
  with b le show ?thesis unfolding serves_late_def st by auto
qed

theorem never_late_witness:
  "0 \<le> g_dt ex_config \<and> sorted (map fst (kps ex_config)) \<and> g_filling ex_config = 1 \<and>
   main_setup ex_config = Inr ex_start \<and> l_t ex_start \<le> l_tKp ex_start \<and>
   l_t ex_start \<le> l_tWriteState ex_start \<and> l_t ex_start \<le> l_tWriteSample ex_start \<and>
   loop_head ex_config ex_start' \<and> l_tNext ex_start' \<le> l_tStop ex_start' \<and>
   \<not> serves_late ex_start' \<and> service_time ex_start' = 1300 \<and>
   service_time ex_start' \<le> l_tWriteState ex_start'"
proof -
  have h: "0 \<le> g_dt ex_config" "sorted (map fst (kps ex_config))" "g_filling ex_config = 1"
    by (simp_all add: ex_config_def)
  have l: "l_t ex_start \<le> l_tKp ex_start" "l_t ex_start \<le> l_tWriteState ex_start"
    "l_t ex_start \<le> l_tWriteSample ex_start"
    by (simp_all add: ex_start_def)
  have g: "l_tNext ex_start' \<le> l_tStop ex_start'" by (simp add: ex_start'_def)
  have "service_time ex_start' = 1300" by (simp add: service_time_def ex_start'_def)
  with never_late [OF h ex_setup l ex_start'_head g] h l g ex_setup ex_start'_head
  show ?thesis by simp
qed

text \<open>
  C9 as stated fails: started with the output requested (\<^verbatim>\<open>-so\<close>) from a time
  before the start of the run, the first pass writes the state, whose time 400 is
  strictly before the current time 1000.
\<close>

theorem never_late_counterexample:
  "main_setup catchup_config = Inr catchup_start \<and> l_tNext catchup_start \<le> l_tStop catchup_start \<and>
   l_tWriteState catchup_start = 400 \<and> service_time catchup_start = 1000 \<and> serves_late catchup_start \<and>
   loop_body catchup_config catchup_start = Inr catchup_next \<and>
   new_events catchup_start catchup_next = [SetTime 1000, SetEPot (Fin 2), WriteState 1000]"
  using catchup_setup catchup_pass
  by (simp add: serves_late_def service_time_def new_events_def catchup_start_def catchup_next_def
      ex_start_def ex_start'_def)


section \<open>The pointer to the filling object\<close>

text \<open>
  C10: a pass through the loop calls \<^verbatim>\<open>setTime\<close> through \<^verbatim>\<open>f\<close> before
  anything else, and \<^verbatim>\<open>f\<close> is assigned exactly when \<^verbatim>\<open>filling\<close> is 1: a run
  without that option that enters the loop ends in the call through the pointer that
  was never assigned, on its first pass.
\<close>

theorem uninitialised_filling_pointer:
  "(l_f s = None \<longrightarrow> loop_body c s = Inl UninitialisedPointer) \<and>
   (loop_body c s = Inr s' \<longrightarrow> l_f s \<noteq> None \<and> hd (new_events s s') = SetTime (l_t s)) \<and>
   (main_setup c = Inr s0 \<longrightarrow> (l_f s0 = None \<longleftrightarrow> g_filling c \<noteq> 1)) \<and>
   (main_setup c = Inr s0 \<longrightarrow> g_filling c \<noteq> 1 \<longrightarrow> l_tNext s0 \<le> l_tStop s0 \<longrightarrow>
      main (Suc n) c = Some (Inl UninitialisedPointer))"
proof (intro conjI impI)
  assume "l_f s = None"
  then show "loop_body c s = Inl UninitialisedPointer" by (rule loop_body_None)
next
  assume "loop_body c s = Inr s'"
  then show "l_f s \<noteq> None" by (rule loop_body_Some)
next
  assume "loop_body c s = Inr s'"
  then show "hd (new_events s s') = SetTime (l_t s)" by (simp add: new_events_pass)
next
  assume "main_setup c = Inr s0"
  then show "l_f s0 = None \<longleftrightarrow> g_filling c \<noteq> 1" by (simp add: main_setup_f)
next
  assume a: "main_setup c = Inr s0" "g_filling c \<noteq> 1" "l_tNext s0 \<le> l_tStop s0"
  then have "l_f s0 = None" by (simp add: main_setup_f)
  then have "loop_body c s0 = Inl UninitialisedPointer" by (rule loop_body_None)
  with a show "main (Suc n) c = Some (Inl UninitialisedPointer)" by (simp add: main_def)
qed

theorem uninitialised_filling_pointer_witness:
  "main_setup plain_config = Inr plain_start \<and> g_filling plain_config \<noteq> 1 \<and>
   l_tNext plain_start \<le> l_tStop plain_start \<and> l_f plain_start = None \<and>
   loop_body plain_config plain_start = Inl UninitialisedPointer \<and>
   main (Suc 0) plain_config = Some (Inl UninitialisedPointer) \<and>
   loop_body ex_sample_config ex_tick = Inr ex_tick' \<and> l_f ex_tick \<noteq> None \<and>
   hd (new_events ex_tick ex_tick') = SetTime 0"
  using uninitialised_filling_pointer [of plain_start plain_config plain_start plain_start 0]
    uninitialised_filling_pointer [of ex_tick ex_sample_config ex_tick' plain_start 0]
    plain_setup ex_tick_pass
  by (simp add: plain_config_def plain_start_def ex_start_def ex_tick_def)

end
